theory Spec2Isabelle
  imports Complex_Main
begin

section \<open>Data model\<close>

text \<open>
  The application keeps one collection of event documents in a document store. The two
  route files \<^verbatim>\<open>routes/rsvp.js\<close> and \<^verbatim>\<open>routes/events.js\<close> read and write it. An
  object id is a 96-bit value, modelled by that number; the handlers compare two ids through
  their string forms (\<^verbatim>\<open>a.toString() === b.toString()\<close>), which are equal exactly when
  the values are. Instants are JavaScript dates, that is, integer milliseconds since the
  epoch. The field \<^verbatim>\<open>rsvpOpenAt\<close> may be missing on a stored document, which
  is the value \<open>None\<close>; a stored date object is always truthy. Every document has
  its \<^verbatim>\<open>createdAt\<close>, which the schema sets when the document is created.

  The model covers what the handlers decide and what they write to the collection. A
  handler answers 500 when the store or its driver throws; of these failures the model has
  the ones that the request and the data determine (a path that spells no object id, a
  document that is gone when it is saved, an id that is taken, a date that does not parse,
  a search pattern that is no regular expression). The uploaded files that the event handlers delete
  from disk and the user documents that \<^verbatim>\<open>populate\<close> puts in place of ids in an answer
  are left out: an answer carries the event as it is stored.
\<close>

type_synonym object_id = nat

text \<open>
  The \<^verbatim>\<open>:eventId\<close> or \<^verbatim>\<open>:id\<close> part of a request path is a string. The driver casts it
  to an object id when a handler passes it to \<^verbatim>\<open>findById\<close>, and throws when the string
  spells none. A path id is modelled by the object id it spells, \<open>None\<close> when it spells
  none.
\<close>

type_synonym path_id = "object_id option"

record event =
  ev_id :: object_id
  title :: string
  description :: string
  date :: int
  location :: string
  capacity :: int
  image_path :: string
  creator :: object_id
  attendees :: "object_id list"
  createdAt :: int
  rsvpOpenAt :: "int option"

text \<open>The collection, in the store's natural order.\<close>

type_synonym collection = "event list"

text \<open>
  What a handler sends back: the HTTP status and the JSON body. A body is a message, a
  message with the re-fetched event (which is \<^verbatim>\<open>null\<close> when the event is gone), the
  list of validation messages, one event, or a list of events.
\<close>

datatype body =
    Message string
  | MessageEvent string "event option"
  | Errors "string list"
  | EventDoc event
  | EventList "event list"

type_synonym response = "nat \<times> body"

section \<open>Store operations\<close>

text \<open>
  \<^verbatim>\<open>Event.findById(id)\<close> for an id that the driver has cast: the first document with that
  id, if any. The cast that fails is a branch of each handler.
\<close>

definition findById :: "collection \<Rightarrow> object_id \<Rightarrow> event option" where
  "findById c i = List.find (\<lambda>d. ev_id d = i) c"

text \<open>
  \<^verbatim>\<open>Event.updateOne(filter, update)\<close>: the store applies the update to the first document
  that satisfies the filter, as one atomic step, and reports how many documents matched
  (0 or 1).
\<close>

fun updateOne :: "(event \<Rightarrow> bool) \<Rightarrow> (event \<Rightarrow> event) \<Rightarrow> collection \<Rightarrow> nat \<times> collection" where
  "updateOne q u [] = (0, [])"
| "updateOne q u (d # ds) =
     (if q d then (1, u d # ds)
      else (case updateOne q u ds of (m, ds') \<Rightarrow> (m, d # ds')))"

text \<open>
  \<^verbatim>\<open>event.save()\<close> on a document that was read from the store: the document is written
  back under its id. The write finds nothing when the document has been removed in the
  meantime, and the driver then throws.
\<close>

definition save :: "collection \<Rightarrow> event \<Rightarrow> collection option" where
  "save c ev =
     (case updateOne (\<lambda>d. ev_id d = ev_id ev) (\<lambda>_. ev) c of
        (m, c') \<Rightarrow> if m = 0 then None else Some c')"

text \<open>
  \<^verbatim>\<open>event.save()\<close> on a new document: it is appended, and the store refuses a second
  document with the same id.
\<close>

definition insertDoc :: "collection \<Rightarrow> event \<Rightarrow> collection option" where
  "insertDoc c ev = (if ev_id ev \<in> set (map ev_id c) then None else Some (c @ [ev]))"

text \<open>\<^verbatim>\<open>Event.findByIdAndDelete(id)\<close>: the first document with that id is removed.\<close>

fun findByIdAndDelete :: "collection \<Rightarrow> object_id \<Rightarrow> collection" where
  "findByIdAndDelete [] i = []"
| "findByIdAndDelete (d # ds) i = (if ev_id d = i then ds else d # findByIdAndDelete ds i)"

text \<open>The update operator \<^verbatim>\<open>$addToSet\<close>: append the value unless it is already there.\<close>

definition addToSet :: "object_id list \<Rightarrow> object_id \<Rightarrow> object_id list" where
  "addToSet xs x = (if x \<in> set xs then xs else xs @ [x])"

section \<open>Rendering numbers in messages\<close>

text \<open>
  A template literal renders an integer in decimal, with a minus sign when negative (for
  the numbers below \<open>10\<^sup>2\<^sup>1\<close>, which every difference of two dates in seconds and
  every length is).
\<close>

definition digit_char :: "nat \<Rightarrow> char" where
  "digit_char n = ''0123456789'' ! n"

function show_nat :: "nat \<Rightarrow> string" where
  "show_nat n = (if n < 10 then [digit_char n] else show_nat (n div 10) @ [digit_char (n mod 10)])"
  by pat_completeness auto
termination
  by (relation "measure (\<lambda>n. n)") auto

declare show_nat.simps [simp del]

definition show_int :: "int \<Rightarrow> string" where
  "show_int i = (if i < 0 then CHR ''-'' # show_nat (nat (- i)) else show_nat (nat i))"

text \<open>
  \<^verbatim>\<open>Math.ceil(x / 1000)\<close> on an integer number of milliseconds, as an integer division
  rounding up (lemma \<open>ceil_seconds_ceiling\<close> below relates it to the ceiling of the real
  quotient). The handler divides in double precision, which gives the same ceiling as long
  as the difference is below \<open>2\<^sup>4\<^sup>3\<close> milliseconds, some 278 years.
\<close>

definition ceil_seconds :: "int \<Rightarrow> int" where
  "ceil_seconds x = - ((- x) div 1000)"

section \<open>Reserving a seat: \<^verbatim>\<open>POST /api/rsvp/:eventId\<close>\<close>

text \<open>
  The instant from which reservations are accepted: the stored field, or one minute after
  creation when the document has none.
\<close>

definition rsvpOpenAt_of :: "event \<Rightarrow> int" where
  "rsvpOpenAt_of ev = (case rsvpOpenAt ev of Some t \<Rightarrow> t | None \<Rightarrow> createdAt ev + 60 * 1000)"

definition wait_message :: "int \<Rightarrow> string" where
  "wait_message waitTime =
     ''RSVP will open in '' @ show_int waitTime @
     '' seconds. Please wait at least 1 minute after event creation.''"

text \<open>
  The checks the handler makes on the document it has read. The handler reads the clock
  three times: for the past-event check (\<open>now1\<close>), for the window check (\<open>now2\<close>) and
  for the waiting time it reports (\<open>now3\<close>). The result is the rejection, or \<open>None\<close>
  when every check passes and the handler goes on to the conditional write.
\<close>

definition post_rsvp_checks ::
  "event option \<Rightarrow> object_id \<Rightarrow> int \<Rightarrow> int \<Rightarrow> int \<Rightarrow> response option" where
  "post_rsvp_checks found userId now1 now2 now3 =
     (case found of
        None \<Rightarrow> Some (404, Message ''Event not found'')
      | Some ev \<Rightarrow>
          if date ev < now1 then Some (400, Message ''Cannot RSVP to past events'')
          else if now2 < rsvpOpenAt_of ev then
            Some (400, Message (wait_message (ceil_seconds (rsvpOpenAt_of ev - now3))))
          else if list_ex (\<lambda>attendee. attendee = userId) (attendees ev) then
            Some (400, Message ''You have already RSVP'd to this event'')
          else if capacity ev \<le> int (length (attendees ev)) then
            Some (400, Message ''Event is at full capacity'')
          else None)"

text \<open>The filter and the update of the conditional write.\<close>

definition rsvp_filter :: "object_id \<Rightarrow> object_id \<Rightarrow> event \<Rightarrow> bool" where
  "rsvp_filter eventId userId d \<longleftrightarrow>
     ev_id d = eventId \<and> userId \<notin> set (attendees d) \<and> int (length (attendees d)) < capacity d"

definition rsvp_update :: "object_id \<Rightarrow> event \<Rightarrow> event" where
  "rsvp_update userId d = d\<lparr>attendees := addToSet (attendees d) userId\<rparr>"

text \<open>
  The conditional write and the answer that follows it. When nothing matched, the handler
  aborts its transaction and nothing is written. The event in the answer is read again
  from the store after the write.
\<close>

definition post_rsvp_commit :: "collection \<Rightarrow> object_id \<Rightarrow> object_id \<Rightarrow> response \<times> collection" where
  "post_rsvp_commit c eventId userId =
     (case updateOne (rsvp_filter eventId userId) (rsvp_update userId) c of
        (matchedCount, c') \<Rightarrow>
          if matchedCount = 0 then
            ((400, Message ''Could not RSVP. Event may be at capacity or you may have already RSVP'd.''), c)
          else ((200, MessageEvent ''Successfully RSVP'd to event'' (findById c' eventId)), c'))"

text \<open>
  The whole handler, when nothing else touches the store between its read and its write.
  When the path spells no object id, \<^verbatim>\<open>findById\<close> throws, and the handler's
  \<^verbatim>\<open>catch\<close> aborts the transaction and answers 500.
\<close>

definition post_rsvp ::
  "collection \<Rightarrow> path_id \<Rightarrow> object_id \<Rightarrow> int \<Rightarrow> int \<Rightarrow> int \<Rightarrow> response \<times> collection" where
  "post_rsvp c path userId now1 now2 now3 =
     (case path of
        None \<Rightarrow> ((500, Message ''Server error''), c)
      | Some eventId \<Rightarrow>
          (case post_rsvp_checks (findById c eventId) userId now1 now2 now3 of
             Some rejection \<Rightarrow> (rejection, c)
           | None \<Rightarrow> post_rsvp_commit c eventId userId))"

text \<open>
  The same user asking again for the same event, once at each of the given instants (every
  clock reading of one call gives that instant). The answers are collected in order.
\<close>

fun post_rsvp_again ::
  "collection \<Rightarrow> path_id \<Rightarrow> object_id \<Rightarrow> int list \<Rightarrow> response list \<times> collection" where
  "post_rsvp_again c path userId [] = ([], c)"
| "post_rsvp_again c path userId (now # later) =
     (case post_rsvp c path userId now now now of
        (answer, c') \<Rightarrow>
          (case post_rsvp_again c' path userId later of
             (answers, c'') \<Rightarrow> (answer # answers, c'')))"

section \<open>Cancelling a reservation: \<^verbatim>\<open>DELETE /api/rsvp/:eventId\<close>\<close>

text \<open>A path that spells no object id makes \<^verbatim>\<open>findById\<close> throw, and the answer is 500.\<close>

definition delete_rsvp :: "collection \<Rightarrow> path_id \<Rightarrow> object_id \<Rightarrow> response \<times> collection" where
  "delete_rsvp c path userId =
     (case path of
        None \<Rightarrow> ((500, Message ''Server error''), c)
      | Some eventId \<Rightarrow>
          (case findById c eventId of
             None \<Rightarrow> ((404, Message ''Event not found''), c)
           | Some ev \<Rightarrow>
               if \<not> list_ex (\<lambda>attendee. attendee = userId) (attendees ev) then
                 ((400, Message ''You have not RSVP'd to this event''), c)
               else
                 (case save c (ev\<lparr>attendees := filter (\<lambda>attendee. attendee \<noteq> userId) (attendees ev)\<rparr>) of
                    None \<Rightarrow> ((500, Message ''Server error''), c)
                  | Some c' \<Rightarrow>
                      ((200, MessageEvent ''Successfully cancelled RSVP'' (findById c' eventId)), c'))))"

section \<open>Listing: \<^verbatim>\<open>GET /api/events\<close>\<close>

text \<open>
  The query object the handler builds has two keys: a lower bound on \<^verbatim>\<open>date\<close> and,
  optionally, a case-insensitive regular expression on \<^verbatim>\<open>title\<close>. The store's regular
  expression engine is not part of the repository; it is the parameter \<open>regex_i\<close>, which
  gives for a pattern the set of subjects it matches, or \<open>None\<close> when the pattern is no
  regular expression. Parsing a date string is the JavaScript engine's and is the
  parameter \<open>parseDate\<close>, which gives \<open>None\<close> for an invalid date. The store rejects
  a query with such a pattern and the driver one with such a date: \<^verbatim>\<open>find\<close> throws and
  the handler answers 500.
\<close>

record find_query =
  q_date_gte :: int
  q_title_regex :: "string option"

text \<open>\<^verbatim>\<open>Event.find(query).sort({ date: 1 })\<close>; \<open>None\<close> when the store rejects the query.\<close>

definition find_sorted ::
  "(string \<Rightarrow> (string \<Rightarrow> bool) option) \<Rightarrow> find_query \<Rightarrow> collection \<Rightarrow> event list option" where
  "find_sorted regex_i q c =
     (case q_title_regex q of
        None \<Rightarrow> Some (sort_key date (filter (\<lambda>d. q_date_gte q \<le> date d) c))
      | Some pat \<Rightarrow>
          (case regex_i pat of
             None \<Rightarrow> None
           | Some matches \<Rightarrow>
               Some (sort_key date (filter (\<lambda>d. q_date_gte q \<le> date d \<and> matches (title d)) c))))"

definition listing :: "event list option \<Rightarrow> response" where
  "listing found = (case found of None \<Rightarrow> (500, Message ''Server error'') | Some es \<Rightarrow> (200, EventList es))"

text \<open>
  A query parameter is absent (\<open>None\<close>) or a string; the handler tests it for truthiness,
  so the empty string counts as absent.
\<close>

definition get_events ::
  "(string \<Rightarrow> (string \<Rightarrow> bool) option) \<Rightarrow> (string \<Rightarrow> int option) \<Rightarrow> collection \<Rightarrow> int \<Rightarrow>
   string option \<Rightarrow> string option \<Rightarrow> response" where
  "get_events regex_i parseDate c now search date_param =
     (let query = \<lparr>q_date_gte = now, q_title_regex = None\<rparr>;
          query = (case search of
                     None \<Rightarrow> query
                   | Some s \<Rightarrow> if s = [] then query else query\<lparr>q_title_regex := Some s\<rparr>)
      in case date_param of
           None \<Rightarrow> listing (find_sorted regex_i query c)
         | Some s \<Rightarrow>
             if s = [] then listing (find_sorted regex_i query c)
             else (case parseDate s of
                     None \<Rightarrow> (500, Message ''Server error'')
                   | Some dateFilter \<Rightarrow>
                       listing (find_sorted regex_i (query\<lparr>q_date_gte := dateFilter\<rparr>) c)))"

section \<open>Creating, updating and deleting: \<^verbatim>\<open>/api/events\<close>\<close>

text \<open>
  The fields of a request body, as the handler reads them once the validation chain has
  run. The chain's \<^verbatim>\<open>trim()\<close> replaces \<^verbatim>\<open>title\<close>, \<^verbatim>\<open>description\<close> and \<^verbatim>\<open>location\<close> in
  the request by their trimmed values, so these three fields are the trimmed strings, and
  \<^verbatim>\<open>notEmpty()\<close> then asks whether they are empty. The chain accepts \<^verbatim>\<open>capacity\<close> when it
  spells an integer that is at least 1, and the handler reads it with \<^verbatim>\<open>parseInt\<close>; the
  field is modelled by the number \<^verbatim>\<open>parseInt\<close> reads, \<open>None\<close> when the field spells no
  integer.
\<close>

record req_body =
  b_title :: string
  b_description :: string
  b_date :: string
  b_location :: string
  b_capacity :: "int option"

text \<open>The messages of the validation chain, in the order of the chain.\<close>

definition validation_errors :: "req_body \<Rightarrow> string list" where
  "validation_errors b =
     (if b_title b = [] then [''Title is required''] else []) @
     (if b_description b = [] then [''Description is required''] else []) @
     (if b_date b = [] then [''Date is required''] else []) @
     (if b_location b = [] then [''Location is required''] else []) @
     (case b_capacity b of
        None \<Rightarrow> [''Capacity must be at least 1'']
      | Some n \<Rightarrow> if 1 \<le> n then [] else [''Capacity must be at least 1''])"

text \<open>
  \<^verbatim>\<open>POST /api/events\<close>. The id of the new document is chosen by the driver (\<open>newId\<close>);
  \<open>now\<close> is \<^verbatim>\<open>Date.now()\<close> and \<open>created\<close> the creation instant that the schema
  records.
\<close>

definition post_events ::
  "(string \<Rightarrow> int option) \<Rightarrow> collection \<Rightarrow> object_id \<Rightarrow> object_id \<Rightarrow> req_body \<Rightarrow>
   string option \<Rightarrow> int \<Rightarrow> int \<Rightarrow> response \<times> collection" where
  "post_events parseDate c newId user b file now created =
     (let errors = validation_errors b in
      if errors \<noteq> [] then ((400, Errors errors), c)
      else
        (case (parseDate (b_date b), b_capacity b) of
           (Some d, Some n) \<Rightarrow>
             (let ev = \<lparr>ev_id = newId,
                        title = b_title b,
                        description = b_description b,
                        date = d,
                        location = b_location b,
                        capacity = n,
                        image_path = (case file of None \<Rightarrow> [] | Some filename \<Rightarrow> ''/uploads/'' @ filename),
                        creator = user,
                        attendees = [],
                        createdAt = created,
                        rsvpOpenAt = Some (now + 60 * 1000)\<rparr>
              in case insertDoc c ev of
                   None \<Rightarrow> ((500, Message ''Server error''), c)
                 | Some c' \<Rightarrow> ((201, EventDoc ev), c'))
         | _ \<Rightarrow> ((500, Message ''Server error''), c)))"

text \<open>
  \<^verbatim>\<open>PUT /api/events/:id\<close>. The validation comes first; then \<^verbatim>\<open>findById\<close>, which throws
  when the path spells no object id.
\<close>

definition capacity_message :: "nat \<Rightarrow> string" where
  "capacity_message n = ''Capacity cannot be less than current attendees ('' @ show_nat n @ '')''"

definition put_events ::
  "(string \<Rightarrow> int option) \<Rightarrow> collection \<Rightarrow> path_id \<Rightarrow> object_id \<Rightarrow> req_body \<Rightarrow>
   string option \<Rightarrow> response \<times> collection" where
  "put_events parseDate c path user b file =
     (let errors = validation_errors b in
      if errors \<noteq> [] then ((400, Errors errors), c)
      else
        (case path of
           None \<Rightarrow> ((500, Message ''Server error''), c)
         | Some eventId \<Rightarrow>
        (case findById c eventId of
           None \<Rightarrow> ((404, Message ''Event not found''), c)
         | Some ev \<Rightarrow>
             if creator ev \<noteq> user then ((403, Message ''Not authorized to update this event''), c)
             else
               (case b_capacity b of
                  None \<Rightarrow> ((500, Message ''Server error''), c)
                | Some n \<Rightarrow>
                    if n < int (length (attendees ev)) then
                      ((400, Message (capacity_message (length (attendees ev)))), c)
                    else
                      (case parseDate (b_date b) of
                         None \<Rightarrow> ((500, Message ''Server error''), c)
                       | Some d \<Rightarrow>
                           (let ev' = ev\<lparr>image_path :=
                                            (case file of
                                               None \<Rightarrow> image_path ev
                                             | Some filename \<Rightarrow>
                                                 if image_path ev = [] then image_path ev
                                                 else ''/uploads/'' @ filename),
                                          title := b_title b,
                                          description := b_description b,
                                          date := d,
                                          location := b_location b,
                                          capacity := n\<rparr>
                            in case save c ev' of
                                 None \<Rightarrow> ((500, Message ''Server error''), c)
                               | Some c' \<Rightarrow> ((200, EventDoc ev'), c')))))))"

text \<open>\<^verbatim>\<open>DELETE /api/events/:id\<close>\<close>

definition delete_events :: "collection \<Rightarrow> path_id \<Rightarrow> object_id \<Rightarrow> response \<times> collection" where
  "delete_events c path user =
     (case path of
        None \<Rightarrow> ((500, Message ''Server error''), c)
      | Some eventId \<Rightarrow>
          (case findById c eventId of
             None \<Rightarrow> ((404, Message ''Event not found''), c)
           | Some ev \<Rightarrow>
               if creator ev \<noteq> user then ((403, Message ''Not authorized to delete this event''), c)
               else ((200, Message ''Event deleted successfully''), findByIdAndDelete c eventId)))"

section \<open>Requests in flight\<close>

text \<open>
  Request handlers run concurrently and yield only while they wait for the store. The
  reservation handler waits twice: for the document it reads, and for the conditional
  write. Between the two, any other handler may act on the store. A request that has
  passed its checks and has not yet written is pending, under a request number.
\<close>

record system =
  events :: collection
  pending :: "nat \<Rightarrow> (object_id \<times> object_id) option"
  sent :: "response list"

datatype rsvp_step =
    Read nat path_id object_id int int int
  | Commit nat

fun rsvp_do :: "system \<Rightarrow> rsvp_step \<Rightarrow> system" where
  "rsvp_do s (Read r None userId now1 now2 now3) =
     s\<lparr>sent := sent s @ [(500, Message ''Server error'')]\<rparr>"
| "rsvp_do s (Read r (Some eventId) userId now1 now2 now3) =
     (case post_rsvp_checks (findById (events s) eventId) userId now1 now2 now3 of
        Some rejection \<Rightarrow> s\<lparr>sent := sent s @ [rejection]\<rparr>
      | None \<Rightarrow> s\<lparr>pending := (pending s)(r \<mapsto> (eventId, userId))\<rparr>)"
| "rsvp_do s (Commit r) =
     (case pending s r of
        None \<Rightarrow> s
      | Some (eventId, userId) \<Rightarrow>
          (case post_rsvp_commit (events s) eventId userId of
             (answer, c') \<Rightarrow>
               s\<lparr>events := c', pending := (pending s)(r := None), sent := sent s @ [answer]\<rparr>))"

definition run_rsvp :: "system \<Rightarrow> rsvp_step list \<Rightarrow> system" where
  "run_rsvp s steps = foldl rsvp_do s steps"

text \<open>
  The other handlers, each taken as one step, next to the steps of the reservation
  handler.
\<close>

datatype operation =
    Join rsvp_step
  | Cancel path_id object_id
  | Create object_id object_id req_body "string option" int int
  | Update path_id object_id req_body "string option"
  | Delete path_id object_id

definition answered :: "system \<Rightarrow> response \<times> collection \<Rightarrow> system" where
  "answered s rc = s\<lparr>events := snd rc, sent := sent s @ [fst rc]\<rparr>"

fun perform :: "(string \<Rightarrow> int option) \<Rightarrow> system \<Rightarrow> operation \<Rightarrow> system" where
  "perform parseDate s (Join step) = rsvp_do s step"
| "perform parseDate s (Cancel path userId) = answered s (delete_rsvp (events s) path userId)"
| "perform parseDate s (Create newId user b file now created) =
     answered s (post_events parseDate (events s) newId user b file now created)"
| "perform parseDate s (Update path user b file) =
     answered s (put_events parseDate (events s) path user b file)"
| "perform parseDate s (Delete path user) = answered s (delete_events (events s) path user)"

definition perform_all :: "(string \<Rightarrow> int option) \<Rightarrow> system \<Rightarrow> operation list \<Rightarrow> system" where
  "perform_all parseDate s ops = foldl (perform parseDate) s ops"

section \<open>The two invariants of the attendee lists\<close>

definition within_capacity :: "object_id \<Rightarrow> collection \<Rightarrow> bool" where
  "within_capacity eventId c \<longleftrightarrow>
     (\<forall>d\<in>set c. ev_id d = eventId \<longrightarrow> int (length (attendees d)) \<le> capacity d)"

definition no_duplicates :: "collection \<Rightarrow> bool" where
  "no_duplicates c \<longleftrightarrow> (\<forall>d\<in>set c. distinct (attendees d))"

section \<open>What a decimal numeral is\<close>

text \<open>
  A string is the decimal numeral of a natural number when it is a non-empty string of
  digits, without a leading zero unless it is the single digit, whose value read from
  left to right is that number. The numeral of a negative integer is a minus sign before
  the numeral of its absolute value.
\<close>

definition is_digit :: "char \<Rightarrow> bool" where
  "is_digit ch \<longleftrightarrow> ch \<in> set ''0123456789''"

definition digit_of :: "char \<Rightarrow> nat" where
  "digit_of ch = length (takeWhile (\<lambda>d. d \<noteq> ch) ''0123456789'')"

definition read_nat :: "string \<Rightarrow> nat" where
  "read_nat s = foldl (\<lambda>a ch. 10 * a + digit_of ch) 0 s"

definition decimal_of :: "string \<Rightarrow> nat \<Rightarrow> bool" where
  "decimal_of s n \<longleftrightarrow>
     s \<noteq> [] \<and> list_all is_digit s \<and> (length s = 1 \<or> hd s \<noteq> CHR ''0'') \<and> read_nat s = n"

definition decimal_of_int :: "string \<Rightarrow> int \<Rightarrow> bool" where
  "decimal_of_int s i \<longleftrightarrow>
     (case s of
        [] \<Rightarrow> False
      | ch # rest \<Rightarrow>
          if ch = CHR ''-'' then i < 0 \<and> decimal_of rest (nat (- i))
          else 0 \<le> i \<and> decimal_of s (nat i))"

section \<open>A sample event\<close>

text \<open>
  An event with id 5, created by user 10 at instant 0 with two seats, whose reservations
  open one minute later and which takes place at instant 100000 (all in milliseconds).
  The users who ask for seats are 11, 12 and 13.
\<close>

definition launch :: event where
  "launch = \<lparr>ev_id = 5, title = ''Launch'', description = ''Product launch'',
              date = 100000, location = ''Hall'', capacity = 2, image_path = [],
              creator = 10, attendees = [], createdAt = 0, rsvpOpenAt = Some 60000\<rparr>"

definition idle :: "collection \<Rightarrow> system" where
  "idle c = \<lparr>events = c, pending = (\<lambda>_. None), sent = []\<rparr>"

text \<open>The request body that creates the sample event, and a date parser for it.\<close>

definition launch_form :: req_body where
  "launch_form = \<lparr>b_title = ''Launch'', b_description = ''Product launch'', b_date = ''2030-01-01'',
                   b_location = ''Hall'', b_capacity = Some 2\<rparr>"

definition parse_sample :: "string \<Rightarrow> int option" where
  "parse_sample s = (if s = ''2030-01-01'' then Some 100000 else if s = ''1970-01-01'' then Some 0 else None)"

section \<open>Basic facts about the store operations\<close>

lemma findById_Some_id: "findById c i = Some d \<Longrightarrow> ev_id d = i"
  by (induction c) (auto simp: findById_def split: if_splits)

lemma findById_Some_mem: "findById c i = Some d \<Longrightarrow> d \<in> set c"
  by (induction c) (auto simp: findById_def split: if_splits)

lemma findById_None_iff: "findById c i = None \<longleftrightarrow> i \<notin> set (map ev_id c)"
  by (induction c) (auto simp: findById_def)

lemma findById_Cons:
  "findById (d # ds) i = (if ev_id d = i then Some d else findById ds i)"
  by (simp add: findById_def)

lemma updateOne_no_match: "\<forall>d\<in>set c. \<not> q d \<Longrightarrow> updateOne q u c = (0, c)"
  by (induction c) auto

lemma updateOne_matched:
  "fst (updateOne q u c) = (if \<exists>d\<in>set c. q d then 1 else 0)"
  by (induction c) (auto split: prod.splits)

lemma updateOne_zero_same: "fst (updateOne q u c) = 0 \<Longrightarrow> snd (updateOne q u c) = c"
  by (induction c) (auto split: prod.splits if_splits)

lemma updateOne_preserves:
  assumes "\<forall>d\<in>set c. P d" and "\<And>d. P d \<Longrightarrow> q d \<Longrightarrow> P (u d)"
  shows "\<forall>d\<in>set (snd (updateOne q u c)). P d"
  using assms(1)
proof (induction c)
  case Nil
  then show ?case by simp
next
  case (Cons d ds)
  then show ?case
    using assms(2) by (auto split: prod.splits)
qed

lemma updateOne_ids:
  "(\<And>d. q d \<Longrightarrow> ev_id (u d) = ev_id d) \<Longrightarrow> map ev_id (snd (updateOne q u c)) = map ev_id c"
  by (induction c) (auto split: prod.splits)

lemma findById_updateOne:
  assumes "\<And>d. q d \<Longrightarrow> ev_id d = i" and "\<And>d. q d \<Longrightarrow> ev_id (u d) = i"
  shows "findById (snd (updateOne q u c)) j =
         (if j = i then map_option (\<lambda>d. if q d then u d else d) (findById c i)
          else findById c j)"
proof (induction c)
  case Nil
  then show ?case by (simp add: findById_def)
next
  case (Cons d ds)
  show ?case
  proof (cases "q d")
    case True
    then show ?thesis
      using assms by (auto simp: findById_Cons)
  next
    case False
    then show ?thesis
      using Cons assms by (auto simp: findById_Cons split: prod.splits)
  qed
qed

lemma ceil_seconds_ceiling: "ceil_seconds x = \<lceil>real_of_int x / 1000\<rceil>"
proof -
  have "\<lfloor>real_of_int (- x) / real_of_int 1000\<rfloor> = (- x) div 1000"
    by (rule floor_divide_of_int_eq)
  then show ?thesis
    by (simp add: ceil_seconds_def ceiling_def)
qed

lemma findById_distinct:
  "distinct (map ev_id c) \<Longrightarrow> d \<in> set c \<Longrightarrow> findById c (ev_id d) = Some d"
  by (induction c) (auto simp: findById_Cons)

lemma list_ex_eq_member: "list_ex (\<lambda>a. a = x) xs \<longleftrightarrow> x \<in> set xs"
  by (auto simp: list_ex_iff)

lemma save_found:
  assumes "findById c i = Some ev" and "ev_id ev' = i"
  shows "\<exists>c'. save c ev' = Some c' \<and> c' = snd (updateOne (\<lambda>d. ev_id d = i) (\<lambda>_. ev') c)
           \<and> (\<forall>j. findById c' j = (if j = i then Some ev' else findById c j))"
proof -
  let ?r = "updateOne (\<lambda>d. ev_id d = i) (\<lambda>_. ev') c"
  have mem: "\<exists>d\<in>set c. ev_id d = i"
    using assms(1) findById_Some_id findById_Some_mem by blast
  then have m: "fst ?r = 1"
    by (simp add: updateOne_matched)
  have f: "findById (snd ?r) j =
      (if j = i then map_option (\<lambda>d. if ev_id d = i then ev' else d) (findById c i) else findById c j)" for j
    by (rule findById_updateOne) (simp_all add: assms(2))
  have "save c ev' = Some (snd ?r)"
    using m assms(2) by (cases ?r) (simp add: save_def)
  moreover have "findById (snd ?r) j = (if j = i then Some ev' else findById c j)" for j
    using f [of j] assms(1) findById_Some_id [OF assms(1)] by simp
  ultimately show ?thesis by blast
qed

section \<open>The numbers in messages are decimal numerals\<close>

lemma below_ten:
  "(k::nat) < 10 \<Longrightarrow>
   k = 0 \<or> k = 1 \<or> k = 2 \<or> k = 3 \<or> k = 4 \<or> k = 5 \<or> k = 6 \<or> k = 7 \<or> k = 8 \<or> k = 9"
  by arith

lemma digit_char_props:
  assumes "k < 10"
  shows "digit_of (digit_char k) = k" and "is_digit (digit_char k)"
  using below_ten [OF assms] by (auto simp: digit_char_def digit_of_def is_digit_def)

lemma read_nat_snoc: "read_nat (s @ [ch]) = 10 * read_nat s + digit_of ch"
  by (simp add: read_nat_def)

lemma show_nat_decimal: "decimal_of (show_nat n) n"
proof (induction n rule: show_nat.induct)
  case (1 n)
  show ?case
  proof (cases "n < 10")
    case True
    then show ?thesis
      by (simp add: show_nat.simps [of n] decimal_of_def digit_char_props read_nat_def)
  next
    case False
    let ?q = "n div 10"
    have ih: "decimal_of (show_nat ?q) ?q"
      using 1 False by simp
    have q: "0 < ?q"
      using False by simp
    have m: "n mod 10 < 10"
      by simp
    obtain ch rest where s: "show_nat ?q = ch # rest"
      using ih by (cases "show_nat ?q") (auto simp: decimal_of_def)
    have nz: "ch \<noteq> CHR ''0''"
    proof
      assume z: "ch = CHR ''0''"
      then have "rest = []"
        using ih s by (auto simp: decimal_of_def)
      then have "read_nat (show_nat ?q) = 0"
        using s z by (simp add: read_nat_def digit_of_def)
      then show False
        using ih q by (simp add: decimal_of_def)
    qed
    have "read_nat (show_nat n) = n"
      using ih False
      by (simp add: show_nat.simps [of n] read_nat_snoc digit_char_props(1) [OF m] decimal_of_def)
    then show ?thesis
      using ih s nz False
      by (simp add: show_nat.simps [of n] decimal_of_def digit_char_props(2) [OF m])
  qed
qed

lemma show_int_decimal: "decimal_of_int (show_int i) i"
proof (cases "i < 0")
  case True
  then show ?thesis
    by (simp add: show_int_def decimal_of_int_def show_nat_decimal)
next
  case False
  obtain ch rest where s: "show_nat (nat i) = ch # rest"
    using show_nat_decimal [of "nat i"] by (cases "show_nat (nat i)") (auto simp: decimal_of_def)
  have "is_digit ch"
    using show_nat_decimal [of "nat i"] s by (simp add: decimal_of_def)
  then have "ch \<noteq> CHR ''-''"
    by (auto simp: is_digit_def)
  then show ?thesis
    using False s show_nat_decimal [of "nat i"] by (simp add: show_int_def decimal_of_int_def)
qed

lemma show_int_values: "show_int 30 = ''30''" "show_int 1 = ''1''"
  by (simp_all add: show_int_def show_nat.simps [of 30] show_nat.simps [of 3] show_nat.simps [of 1]
      show_nat.simps [of "Suc 0"] digit_char_def)

lemma show_nat_2: "show_nat (Suc (Suc 0)) = ''2''"
  by (simp add: show_nat.simps [of "Suc (Suc 0)"] digit_char_def)

section \<open>The conditional write\<close>

lemma rsvp_matched_iff:
  assumes "distinct (map ev_id c)"
  shows "fst (updateOne (rsvp_filter eventId userId) (rsvp_update userId) c) = 1 \<longleftrightarrow>
     (\<exists>ev. findById c eventId = Some ev \<and> userId \<notin> set (attendees ev) \<and>
           int (length (attendees ev)) < capacity ev)"
proof -
  have "(\<exists>d\<in>set c. rsvp_filter eventId userId d) \<longleftrightarrow>
     (\<exists>ev. findById c eventId = Some ev \<and> userId \<notin> set (attendees ev) \<and>
           int (length (attendees ev)) < capacity ev)"
  proof
    assume "\<exists>d\<in>set c. rsvp_filter eventId userId d"
    then obtain d where d: "d \<in> set c" "rsvp_filter eventId userId d" by blast
    then have "findById c eventId = Some d"
      using findById_distinct [OF assms d(1)] by (simp add: rsvp_filter_def)
    with d(2) show "\<exists>ev. findById c eventId = Some ev \<and> userId \<notin> set (attendees ev) \<and>
           int (length (attendees ev)) < capacity ev"
      by (auto simp: rsvp_filter_def)
  next
    assume "\<exists>ev. findById c eventId = Some ev \<and> userId \<notin> set (attendees ev) \<and>
           int (length (attendees ev)) < capacity ev"
    then show "\<exists>d\<in>set c. rsvp_filter eventId userId d"
      by (auto simp: rsvp_filter_def dest: findById_Some_id findById_Some_mem)
  qed
  then show ?thesis
    by (simp add: updateOne_matched)
qed

lemma findById_rsvp_update:
  "findById (snd (updateOne (rsvp_filter eventId userId) (rsvp_update userId) c)) j =
     (if j = eventId
      then map_option (\<lambda>d. if rsvp_filter eventId userId d then rsvp_update userId d else d)
             (findById c eventId)
      else findById c j)"
  by (rule findById_updateOne) (simp_all add: rsvp_filter_def rsvp_update_def)

lemma post_rsvp_commit_lost:
  "fst (updateOne (rsvp_filter eventId userId) (rsvp_update userId) c) = 0 \<Longrightarrow>
   post_rsvp_commit c eventId userId =
     ((400, Message ''Could not RSVP. Event may be at capacity or you may have already RSVP'd.''), c)"
  by (cases "updateOne (rsvp_filter eventId userId) (rsvp_update userId) c")
     (simp add: post_rsvp_commit_def)

lemma post_rsvp_commit_won:
  assumes "findById c eventId = Some ev" and "userId \<notin> set (attendees ev)"
    and "int (length (attendees ev)) < capacity ev"
  shows "post_rsvp_commit c eventId userId =
     ((200, MessageEvent ''Successfully RSVP'd to event'' (Some (ev\<lparr>attendees := attendees ev @ [userId]\<rparr>))),
      snd (updateOne (rsvp_filter eventId userId) (rsvp_update userId) c))"
    and "findById (snd (post_rsvp_commit c eventId userId)) j =
      (if j = eventId then Some (ev\<lparr>attendees := attendees ev @ [userId]\<rparr>) else findById c j)"
proof -
  let ?r = "updateOne (rsvp_filter eventId userId) (rsvp_update userId) c"
  have flt: "rsvp_filter eventId userId ev"
    using assms findById_Some_id [OF assms(1)] by (simp add: rsvp_filter_def)
  then have "\<exists>d\<in>set c. rsvp_filter eventId userId d"
    using findById_Some_mem [OF assms(1)] by blast
  then have m: "fst ?r = 1"
    by (simp add: updateOne_matched)
  have upd: "rsvp_update userId ev = ev\<lparr>attendees := attendees ev @ [userId]\<rparr>"
    using assms(2) by (simp add: rsvp_update_def addToSet_def)
  have f: "findById (snd ?r) j =
      (if j = eventId then Some (ev\<lparr>attendees := attendees ev @ [userId]\<rparr>) else findById c j)" for j
    using findById_rsvp_update [of eventId userId c j] assms(1) flt upd by simp
  show 1: "post_rsvp_commit c eventId userId =
     ((200, MessageEvent ''Successfully RSVP'd to event'' (Some (ev\<lparr>attendees := attendees ev @ [userId]\<rparr>))),
      snd ?r)"
    using m f [of eventId] by (cases ?r) (simp add: post_rsvp_commit_def)
  show "findById (snd (post_rsvp_commit c eventId userId)) j =
      (if j = eventId then Some (ev\<lparr>attendees := attendees ev @ [userId]\<rparr>) else findById c j)"
    using f [of j] by (simp add: 1)
qed

text \<open>
  Claim C3. The commit step of a reservation is one conditional write. On a collection with
  unique ids it matches exactly when, at that instant, the event exists, the user is not
  among its attendees and the number of attendees is below the capacity. When it matches,
  the user is added to the attendees of that event, no other event changes, and the answer
  is the success (200). When it matches nothing, whatever the earlier checks saw, the
  answer is the one merged rejection (400) and nothing is written.
\<close>

theorem post_rsvp_commit_conditional_write:
  assumes "distinct (map ev_id c)"
  shows "(fst (updateOne (rsvp_filter eventId userId) (rsvp_update userId) c) = 1 \<longleftrightarrow>
            (\<exists>ev. findById c eventId = Some ev \<and> userId \<notin> set (attendees ev) \<and>
                  int (length (attendees ev)) < capacity ev))
       \<and> (fst (updateOne (rsvp_filter eventId userId) (rsvp_update userId) c) \<noteq> 1 \<longrightarrow>
            post_rsvp_commit c eventId userId =
              ((400, Message ''Could not RSVP. Event may be at capacity or you may have already RSVP'd.''), c))
       \<and> (\<forall>ev. findById c eventId = Some ev \<and> userId \<notin> set (attendees ev) \<and>
                  int (length (attendees ev)) < capacity ev \<longrightarrow>
            fst (post_rsvp_commit c eventId userId) =
              (200, MessageEvent ''Successfully RSVP'd to event''
                      (Some (ev\<lparr>attendees := attendees ev @ [userId]\<rparr>)))
            \<and> (\<forall>j. findById (snd (post_rsvp_commit c eventId userId)) j =
                  (if j = eventId then Some (ev\<lparr>attendees := attendees ev @ [userId]\<rparr>)
                   else findById c j)))"
proof (intro conjI allI impI)
  show "fst (updateOne (rsvp_filter eventId userId) (rsvp_update userId) c) = 1 \<longleftrightarrow>
            (\<exists>ev. findById c eventId = Some ev \<and> userId \<notin> set (attendees ev) \<and>
                  int (length (attendees ev)) < capacity ev)"
    by (rule rsvp_matched_iff [OF assms])
next
  assume "fst (updateOne (rsvp_filter eventId userId) (rsvp_update userId) c) \<noteq> 1"
  then have "fst (updateOne (rsvp_filter eventId userId) (rsvp_update userId) c) = 0"
    by (simp add: updateOne_matched split: if_splits)
  then show "post_rsvp_commit c eventId userId =
              ((400, Message ''Could not RSVP. Event may be at capacity or you may have already RSVP'd.''), c)"
    by (rule post_rsvp_commit_lost)
next
  fix ev
  assume "findById c eventId = Some ev \<and> userId \<notin> set (attendees ev) \<and>
                  int (length (attendees ev)) < capacity ev"
  then show "fst (post_rsvp_commit c eventId userId) =
              (200, MessageEvent ''Successfully RSVP'd to event''
                      (Some (ev\<lparr>attendees := attendees ev @ [userId]\<rparr>)))"
    by (simp add: post_rsvp_commit_won(1))
next
  fix ev j
  assume "findById c eventId = Some ev \<and> userId \<notin> set (attendees ev) \<and>
                  int (length (attendees ev)) < capacity ev"
  then show "findById (snd (post_rsvp_commit c eventId userId)) j =
                  (if j = eventId then Some (ev\<lparr>attendees := attendees ev @ [userId]\<rparr>)
                   else findById c j)"
    using post_rsvp_commit_won(2) by blast
qed


theorem post_rsvp_commit_conditional_write_witness:
  "distinct (map ev_id [launch])
   \<and> fst (post_rsvp_commit [launch] 5 11) =
       (200, MessageEvent ''Successfully RSVP'd to event'' (Some (launch\<lparr>attendees := [11]\<rparr>)))
   \<and> findById (snd (post_rsvp_commit [launch] 5 11)) 5 =
       Some (launch\<lparr>attendees := [11]\<rparr>)
   \<and> post_rsvp_commit [launch\<lparr>attendees := [11, 12]\<rparr>] 5 13 =
       ((400, Message ''Could not RSVP. Event may be at capacity or you may have already RSVP'd.''),
        [launch\<lparr>attendees := [11, 12]\<rparr>])"
proof -
  have d1: "distinct (map ev_id [launch])" by simp
  have d2: "distinct (map ev_id [launch\<lparr>attendees := [11, 12]\<rparr>])" by simp
  show ?thesis
    using post_rsvp_commit_conditional_write [OF d1, of 5 11]
      post_rsvp_commit_conditional_write [OF d2, of 5 13]
    by (simp add: launch_def findById_def rsvp_filter_def)
qed

section \<open>The checks before the write\<close>

lemma post_rsvp_commit_not_waiting:
  "fst (post_rsvp_commit c eventId userId) \<noteq>
     (400, Message (''RSVP will open in '' @ digits @
                    '' seconds. Please wait at least 1 minute after event creation.''))"
  by (cases "updateOne (rsvp_filter eventId userId) (rsvp_update userId) c")
     (simp add: post_rsvp_commit_def)

text \<open>A path that spells no object id is answered 500 before any check, and nothing is written.\<close>

lemma post_rsvp_malformed_path:
  "post_rsvp c None userId now1 now2 now3 = ((500, Message ''Server error''), c)"
  by (simp add: post_rsvp_def)

text \<open>
  Claim C4. For a path that spells an object id, the reservation handler checks, in this
  order: the event exists (else 404, not found); its date is not before the clock (else
  400, past event); the clock has reached the opening instant (else 400, with the waiting
  time); the user is not yet an attendee (else 400, already reserved); a seat is free
  (else 400, full). Each rejection returns at once, leaves the collection as it is, and
  the five answers differ from one another. In particular an event whose date is before
  the clock is rejected as past, whatever its opening instant, attendees and capacity are.
\<close>

theorem post_rsvp_check_order:
  "(findById c eventId = None \<longrightarrow>
      post_rsvp c (Some eventId) userId now1 now2 now3 = ((404, Message ''Event not found''), c))
   \<and> (\<forall>ev. findById c eventId = Some ev \<longrightarrow>
        (date ev < now1 \<longrightarrow>
           post_rsvp c (Some eventId) userId now1 now2 now3 =
             ((400, Message ''Cannot RSVP to past events''), c))
      \<and> (\<not> date ev < now1 \<and> now2 < rsvpOpenAt_of ev \<longrightarrow>
           post_rsvp c (Some eventId) userId now1 now2 now3 =
             ((400, Message (''RSVP will open in '' @
                             show_int (ceil_seconds (rsvpOpenAt_of ev - now3)) @
                             '' seconds. Please wait at least 1 minute after event creation.'')), c))
      \<and> (\<not> date ev < now1 \<and> \<not> now2 < rsvpOpenAt_of ev \<and> userId \<in> set (attendees ev) \<longrightarrow>
           post_rsvp c (Some eventId) userId now1 now2 now3 =
             ((400, Message ''You have already RSVP'd to this event''), c))
      \<and> (\<not> date ev < now1 \<and> \<not> now2 < rsvpOpenAt_of ev \<and> userId \<notin> set (attendees ev)
           \<and> capacity ev \<le> int (length (attendees ev)) \<longrightarrow>
           post_rsvp c (Some eventId) userId now1 now2 now3 =
             ((400, Message ''Event is at full capacity''), c)))
   \<and> distinct [(404, Message ''Event not found''),
               (400, Message ''Cannot RSVP to past events''),
               (400, Message (''RSVP will open in '' @ digits @
                              '' seconds. Please wait at least 1 minute after event creation.'')),
               (400, Message ''You have already RSVP'd to this event''),
               (400::nat, Message ''Event is at full capacity'')]"
  by (simp add: post_rsvp_def post_rsvp_checks_def list_ex_eq_member wait_message_def)

theorem post_rsvp_check_order_witness:
  "findById [launch\<lparr>date := 4000, attendees := [11, 12], capacity := 2,
                     rsvpOpenAt := Some 9000\<rparr>] 5 =
     Some (launch\<lparr>date := 4000, attendees := [11, 12], capacity := 2, rsvpOpenAt := Some 9000\<rparr>)
   \<and> post_rsvp [launch\<lparr>date := 4000, attendees := [11, 12], capacity := 2,
                        rsvpOpenAt := Some 9000\<rparr>] (Some 5) 11 5000 5000 5000 =
       ((400, Message ''Cannot RSVP to past events''),
        [launch\<lparr>date := 4000, attendees := [11, 12], capacity := 2, rsvpOpenAt := Some 9000\<rparr>])
   \<and> post_rsvp [] (Some 5) 11 5000 5000 5000 = ((404, Message ''Event not found''), [])"
  using post_rsvp_check_order
          [of "[launch\<lparr>date := 4000, attendees := [11, 12], capacity := 2,
                        rsvpOpenAt := Some 9000\<rparr>]" 5 11 5000 5000 5000 "[]"]
        post_rsvp_check_order [of "[]" 5 11 5000 5000 5000 "[]"]
  by (simp add: launch_def findById_def)

text \<open>
  The window check with the handler's own clock readings: for an event that exists and is
  not past at the first reading, the answer is a waiting message exactly when the second
  reading is before the opening instant, and the seconds it reports, as a decimal numeral,
  come from the third.
\<close>

lemma post_rsvp_window_clock:
  assumes "findById c eventId = Some ev" and "\<not> date ev < now1"
  shows "(\<exists>digits. fst (post_rsvp c (Some eventId) userId now1 now2 now3) =
            (400, Message (''RSVP will open in '' @ digits @
                           '' seconds. Please wait at least 1 minute after event creation.'')))
           \<longleftrightarrow> now2 < rsvpOpenAt_of ev"
    and "now2 < rsvpOpenAt_of ev \<Longrightarrow>
         \<exists>digits. post_rsvp c (Some eventId) userId now1 now2 now3 =
            ((400, Message (''RSVP will open in '' @ digits @
                            '' seconds. Please wait at least 1 minute after event creation.'')), c)
          \<and> decimal_of_int digits \<lceil>real_of_int (rsvpOpenAt_of ev - now3) / 1000\<rceil>"
proof -
  have waiting: "\<exists>digits. post_rsvp c (Some eventId) userId now1 now2 now3 =
            ((400, Message (''RSVP will open in '' @ digits @
                            '' seconds. Please wait at least 1 minute after event creation.'')), c)
          \<and> decimal_of_int digits \<lceil>real_of_int (rsvpOpenAt_of ev - now3) / 1000\<rceil>"
    if "now2 < rsvpOpenAt_of ev"
  proof (intro exI conjI)
    show "post_rsvp c (Some eventId) userId now1 now2 now3 =
            ((400, Message (''RSVP will open in '' @
                            show_int (ceil_seconds (rsvpOpenAt_of ev - now3)) @
                            '' seconds. Please wait at least 1 minute after event creation.'')), c)"
      using assms that by (simp add: post_rsvp_def post_rsvp_checks_def wait_message_def)
    show "decimal_of_int (show_int (ceil_seconds (rsvpOpenAt_of ev - now3)))
            \<lceil>real_of_int (rsvpOpenAt_of ev - now3) / 1000\<rceil>"
      using show_int_decimal [of "ceil_seconds (rsvpOpenAt_of ev - now3)"]
      by (simp only: ceil_seconds_ceiling)
  qed
  show "(\<exists>digits. fst (post_rsvp c (Some eventId) userId now1 now2 now3) =
            (400, Message (''RSVP will open in '' @ digits @
                           '' seconds. Please wait at least 1 minute after event creation.'')))
           \<longleftrightarrow> now2 < rsvpOpenAt_of ev"
  proof
    assume "\<exists>digits. fst (post_rsvp c (Some eventId) userId now1 now2 now3) =
            (400, Message (''RSVP will open in '' @ digits @
                           '' seconds. Please wait at least 1 minute after event creation.''))"
    then obtain digits
      where w: "fst (post_rsvp c (Some eventId) userId now1 now2 now3) =
            (400, Message (''RSVP will open in '' @ digits @
                           '' seconds. Please wait at least 1 minute after event creation.''))"
      by blast
    show "now2 < rsvpOpenAt_of ev"
    proof (rule ccontr)
      assume "\<not> now2 < rsvpOpenAt_of ev"
      then show False
        using w assms post_rsvp_commit_not_waiting [of c eventId userId digits]
        by (simp add: post_rsvp_def post_rsvp_checks_def split: if_splits)
    qed
  next
    assume "now2 < rsvpOpenAt_of ev"
    from waiting [OF this] obtain digits
      where "post_rsvp c (Some eventId) userId now1 now2 now3 =
            ((400, Message (''RSVP will open in '' @ digits @
                            '' seconds. Please wait at least 1 minute after event creation.'')), c)"
      by blast
    then have "fst (post_rsvp c (Some eventId) userId now1 now2 now3) =
            (400, Message (''RSVP will open in '' @ digits @
                           '' seconds. Please wait at least 1 minute after event creation.''))"
      by simp
    then show "\<exists>digits. fst (post_rsvp c (Some eventId) userId now1 now2 now3) =
            (400, Message (''RSVP will open in '' @ digits @
                           '' seconds. Please wait at least 1 minute after event creation.''))"
      by blast
  qed
  show "\<exists>digits. post_rsvp c (Some eventId) userId now1 now2 now3 =
            ((400, Message (''RSVP will open in '' @ digits @
                            '' seconds. Please wait at least 1 minute after event creation.'')), c)
          \<and> decimal_of_int digits \<lceil>real_of_int (rsvpOpenAt_of ev - now3) / 1000\<rceil>"
    if "now2 < rsvpOpenAt_of ev"
    using waiting [OF that] .
qed

text \<open>
  Claim C5. For an event that exists and is not past, a reservation made at instant
  \<open>now\<close> is rejected with the waiting message exactly when \<open>now\<close> is before the
  opening instant; in particular a call at the opening instant itself passes this check.
  The opening instant is the stored field, or the creation instant plus 60 seconds when
  the field is unset. The rejection has status 400, its message is
  \<^verbatim>\<open>RSVP will open in N seconds. Please wait at least 1 minute after event creation.\<close>
  where \<open>N\<close> is the decimal numeral of the difference in seconds, rounded up, and it
  leaves the collection as it is. Here every clock reading of the handler gives \<open>now\<close>.
\<close>

theorem post_rsvp_window:
  assumes "findById c eventId = Some ev" and "\<not> date ev < now"
  shows "((\<exists>digits. fst (post_rsvp c (Some eventId) userId now now now) =
              (400, Message (''RSVP will open in '' @ digits @
                             '' seconds. Please wait at least 1 minute after event creation.'')))
            \<longleftrightarrow> now < rsvpOpenAt_of ev)
       \<and> (now < rsvpOpenAt_of ev \<longrightarrow>
            (\<exists>digits. post_rsvp c (Some eventId) userId now now now =
                ((400, Message (''RSVP will open in '' @ digits @
                                '' seconds. Please wait at least 1 minute after event creation.'')), c)
              \<and> decimal_of_int digits \<lceil>real_of_int (rsvpOpenAt_of ev - now) / 1000\<rceil>))
       \<and> (\<forall>t. rsvpOpenAt ev = Some t \<longrightarrow> rsvpOpenAt_of ev = t)
       \<and> (rsvpOpenAt ev = None \<longrightarrow> rsvpOpenAt_of ev = createdAt ev + 60 * 1000)"
  using post_rsvp_window_clock [OF assms, where userId = userId and ?now2.0 = now and ?now3.0 = now]
  by (simp add: rsvpOpenAt_of_def)

theorem post_rsvp_window_witness:
  "findById [launch] 5 = Some launch \<and> \<not> date launch < 30000
   \<and> post_rsvp [launch] (Some 5) 11 30000 30000 30000 =
        ((400, Message ''RSVP will open in 30 seconds. Please wait at least 1 minute after event creation.''),
         [launch])
   \<and> decimal_of_int ''30'' 30
   \<and> post_rsvp [launch] (Some 5) 11 59999 59999 59999 =
        ((400, Message ''RSVP will open in 1 seconds. Please wait at least 1 minute after event creation.''),
         [launch])
   \<and> fst (fst (post_rsvp [launch] (Some 5) 11 60000 60000 60000)) = 200
   \<and> post_rsvp [launch\<lparr>rsvpOpenAt := None, createdAt := 5000\<rparr>] (Some 5) 11 64999 64999 64999 =
        ((400, Message ''RSVP will open in 1 seconds. Please wait at least 1 minute after event creation.''),
         [launch\<lparr>rsvpOpenAt := None, createdAt := 5000\<rparr>])"
proof -
  have f: "findById [launch] 5 = Some launch"
    by (simp add: findById_def launch_def)
  have g: "findById [launch\<lparr>rsvpOpenAt := None, createdAt := 5000\<rparr>] 5 =
             Some (launch\<lparr>rsvpOpenAt := None, createdAt := 5000\<rparr>)"
    by (simp add: findById_def launch_def)
  have d: "date launch = 100000" "rsvpOpenAt_of launch = 60000"
    "rsvpOpenAt_of (launch\<lparr>rsvpOpenAt := None, createdAt := 5000\<rparr>) = 65000"
    by (simp_all add: launch_def rsvpOpenAt_of_def)
  have n: "\<not> date launch < 30000"
    by (simp add: d)
  have early: "post_rsvp [launch] (Some 5) 11 30000 30000 30000 =
        ((400, Message ''RSVP will open in 30 seconds. Please wait at least 1 minute after event creation.''),
         [launch])"
    by (simp add: post_rsvp_def post_rsvp_checks_def f d wait_message_def ceil_seconds_def
        show_int_values)
  have last: "post_rsvp [launch] (Some 5) 11 59999 59999 59999 =
        ((400, Message ''RSVP will open in 1 seconds. Please wait at least 1 minute after event creation.''),
         [launch])"
    by (simp add: post_rsvp_def post_rsvp_checks_def f d wait_message_def ceil_seconds_def
        show_int_values)
  have legacy: "post_rsvp [launch\<lparr>rsvpOpenAt := None, createdAt := 5000\<rparr>] (Some 5) 11 64999 64999 64999 =
        ((400, Message ''RSVP will open in 1 seconds. Please wait at least 1 minute after event creation.''),
         [launch\<lparr>rsvpOpenAt := None, createdAt := 5000\<rparr>])"
    by (simp add: post_rsvp_def post_rsvp_checks_def findById_def rsvpOpenAt_of_def launch_def
        wait_message_def ceil_seconds_def show_int_values)
  have open_now: "fst (fst (post_rsvp [launch] (Some 5) 11 60000 60000 60000)) = 200"
    by (simp add: post_rsvp_def post_rsvp_checks_def post_rsvp_commit_def rsvp_filter_def
        rsvpOpenAt_of_def findById_def launch_def)
  have up: "\<lceil>(30000::real) / 1000\<rceil> = 30"
    using ceil_seconds_ceiling [of 30000] by (simp add: ceil_seconds_def)
  have "\<exists>digits. post_rsvp [launch] (Some 5) 11 30000 30000 30000 =
            ((400, Message (''RSVP will open in '' @ digits @
                            '' seconds. Please wait at least 1 minute after event creation.'')), [launch])
          \<and> decimal_of_int digits 30"
    using post_rsvp_window [OF f n, of 11] by (simp add: d up)
  then have "decimal_of_int ''30'' 30"
    by (auto simp: early)
  then show ?thesis
    using f n early last legacy open_now by simp
qed

section \<open>Asking again after a reservation\<close>

lemma post_rsvp_member:
  assumes "findById c eventId = Some ev" and "userId \<in> set (attendees ev)"
  shows "snd (post_rsvp c (Some eventId) userId now1 now2 now3) = c"
    and "\<not> date ev < now1 \<Longrightarrow> \<not> now2 < rsvpOpenAt_of ev \<Longrightarrow>
         fst (post_rsvp c (Some eventId) userId now1 now2 now3) =
           (400, Message ''You have already RSVP'd to this event'')"
    and "date ev < now1 \<Longrightarrow>
         fst (post_rsvp c (Some eventId) userId now1 now2 now3) = (400, Message ''Cannot RSVP to past events'')"
  using assms by (simp_all add: post_rsvp_def post_rsvp_checks_def list_ex_eq_member)

lemma post_rsvp_checks_status:
  "post_rsvp_checks found userId now1 now2 now3 = Some r \<Longrightarrow> fst r \<noteq> 200"
  by (auto simp: post_rsvp_checks_def split: option.splits if_splits)

lemma post_rsvp_success:
  assumes "post_rsvp c (Some eventId) userId now1 now2 now3 = ((200, b), c1)"
    and "findById c eventId = Some ev"
  shows "findById c1 eventId = Some (ev\<lparr>attendees := attendees ev @ [userId]\<rparr>)"
    and "\<not> now2 < rsvpOpenAt_of ev"
    and "userId \<notin> set (attendees ev)"
    and "int (length (attendees ev)) < capacity ev"
proof -
  have chk: "post_rsvp_checks (findById c eventId) userId now1 now2 now3 = None"
  proof (cases "post_rsvp_checks (findById c eventId) userId now1 now2 now3")
    case None
    then show ?thesis .
  next
    case (Some r)
    then have "fst r \<noteq> 200" by (rule post_rsvp_checks_status)
    moreover have "r = (200, b)"
      using assms(1) Some by (simp add: post_rsvp_def)
    ultimately show ?thesis by simp
  qed
  then show open_: "\<not> now2 < rsvpOpenAt_of ev"
    and fresh: "userId \<notin> set (attendees ev)"
    and room: "int (length (attendees ev)) < capacity ev"
    using assms(2)
    by (auto simp: post_rsvp_checks_def list_ex_eq_member split: if_splits)
  have "post_rsvp_commit c eventId userId = ((200, b), c1)"
    using assms(1) chk by (simp add: post_rsvp_def)
  then have "c1 = snd (post_rsvp_commit c eventId userId)" by simp
  then show "findById c1 eventId = Some (ev\<lparr>attendees := attendees ev @ [userId]\<rparr>)"
    using post_rsvp_commit_won(2) [OF assms(2) fresh room, of eventId] by simp
qed

lemma post_rsvp_again_member:
  assumes "findById c eventId = Some ev" and "userId \<in> set (attendees ev)"
  shows "snd (post_rsvp_again c (Some eventId) userId later) = c"
    and "\<forall>t\<in>set later. \<not> date ev < t \<and> \<not> t < rsvpOpenAt_of ev \<Longrightarrow>
         fst (post_rsvp_again c (Some eventId) userId later) =
           replicate (length later) (400, Message ''You have already RSVP'd to this event'')"
proof -
  show "snd (post_rsvp_again c (Some eventId) userId later) = c"
  proof (induction later)
    case Nil
    then show ?case by simp
  next
    case (Cons t later)
    have "snd (post_rsvp c (Some eventId) userId t t t) = c"
      by (rule post_rsvp_member(1) [OF assms])
    then show ?case
      using Cons by (simp add: split_beta)
  qed
  show "\<forall>t\<in>set later. \<not> date ev < t \<and> \<not> t < rsvpOpenAt_of ev \<Longrightarrow>
         fst (post_rsvp_again c (Some eventId) userId later) =
           replicate (length later) (400, Message ''You have already RSVP'd to this event'')"
  proof (induction later)
    case Nil
    then show ?case by simp
  next
    case (Cons t later)
    have 1: "snd (post_rsvp c (Some eventId) userId t t t) = c"
      by (rule post_rsvp_member(1) [OF assms])
    have 2: "fst (post_rsvp c (Some eventId) userId t t t) =
        (400, Message ''You have already RSVP'd to this event'')"
      using Cons.prems by (intro post_rsvp_member(2) [OF assms]) simp_all
    show ?case
      using Cons 1 2 by (simp add: split_beta)
  qed
qed

text \<open>
  Claim C6, as the code has it. After a successful reservation at instant \<open>now\<close>, the
  same user asking again for the same event never changes the collection, however often and
  whenever the calls are made. Each call made no earlier than \<open>now\<close> and no later than
  the event's date is answered with the already-reserved rejection. (A call made after the
  event's date is answered with the past-event rejection, since that check comes first.)
\<close>

theorem post_rsvp_again_rejected:
  assumes "post_rsvp c (Some eventId) userId now now now = ((200, b), c1)"
    and "findById c eventId = Some ev"
  shows "snd (post_rsvp_again c1 (Some eventId) userId later) = c1
       \<and> ((\<forall>t\<in>set later. now \<le> t \<and> t \<le> date ev) \<longrightarrow>
            fst (post_rsvp_again c1 (Some eventId) userId later) =
              replicate (length later) (400, Message ''You have already RSVP'd to this event''))"
proof -
  let ?ev1 = "ev\<lparr>attendees := attendees ev @ [userId]\<rparr>"
  have f: "findById c1 eventId = Some ?ev1"
    and o: "\<not> now < rsvpOpenAt_of ev"
    using post_rsvp_success [OF assms] by simp_all
  have m: "userId \<in> set (attendees ?ev1)" by simp
  have same: "date ?ev1 = date ev" "rsvpOpenAt_of ?ev1 = rsvpOpenAt_of ev"
    by (simp_all add: rsvpOpenAt_of_def split: option.splits)
  have "snd (post_rsvp_again c1 (Some eventId) userId later) = c1"
    by (rule post_rsvp_again_member(1) [OF f m])
  moreover have "fst (post_rsvp_again c1 (Some eventId) userId later) =
              replicate (length later) (400, Message ''You have already RSVP'd to this event'')"
    if "\<forall>t\<in>set later. now \<le> t \<and> t \<le> date ev"
  proof (rule post_rsvp_again_member(2) [OF f m])
    show "\<forall>t\<in>set later. \<not> date ?ev1 < t \<and> \<not> t < rsvpOpenAt_of ?ev1"
      using that o by (auto simp: same)
  qed
  ultimately show ?thesis by blast
qed

theorem post_rsvp_again_rejected_witness:
  "post_rsvp [launch] (Some 5) 11 61000 61000 61000 =
     ((200, MessageEvent ''Successfully RSVP'd to event'' (Some (launch\<lparr>attendees := [11]\<rparr>))),
      [launch\<lparr>attendees := [11]\<rparr>])
   \<and> findById [launch] 5 = Some launch
   \<and> date launch = 100000
   \<and> post_rsvp_again [launch\<lparr>attendees := [11]\<rparr>] (Some 5) 11 [61000, 62000, 100000] =
       (replicate 3 (400, Message ''You have already RSVP'd to this event''),
        [launch\<lparr>attendees := [11]\<rparr>])"
proof -
  have s: "post_rsvp [launch] (Some 5) 11 61000 61000 61000 =
     ((200, MessageEvent ''Successfully RSVP'd to event'' (Some (launch\<lparr>attendees := [11]\<rparr>))),
      [launch\<lparr>attendees := [11]\<rparr>])"
    by (simp add: post_rsvp_def post_rsvp_checks_def post_rsvp_commit_def rsvp_filter_def
        rsvp_update_def addToSet_def rsvpOpenAt_of_def findById_def launch_def)
  have f: "findById [launch] 5 = Some launch"
    by (simp add: findById_def launch_def)
  have d: "date launch = 100000"
    by (simp add: launch_def)
  have t: "\<forall>t\<in>set [61000, 62000, 100000]. 61000 \<le> t \<and> t \<le> date launch"
    by (simp add: d)
  show ?thesis
    using post_rsvp_again_rejected [OF s f, of "[61000, 62000, 100000]"] s f t d
    by (simp add: prod_eq_iff numeral_3_eq_3 del: post_rsvp_again.simps)
qed

theorem post_rsvp_again_after_date_counterexample:
  "fst (fst (post_rsvp [launch] (Some 5) 11 61000 61000 61000)) = 200
   \<and> fst (post_rsvp (snd (post_rsvp [launch] (Some 5) 11 61000 61000 61000))
            (Some 5) 11 100001 100001 100001) = (400, Message ''Cannot RSVP to past events'')
   \<and> fst (post_rsvp (snd (post_rsvp [launch] (Some 5) 11 61000 61000 61000))
            (Some 5) 11 100001 100001 100001) \<noteq> (400, Message ''You have already RSVP'd to this event'')"
  by (simp add: post_rsvp_def post_rsvp_checks_def post_rsvp_commit_def rsvp_filter_def
      rsvp_update_def addToSet_def rsvpOpenAt_of_def findById_def launch_def)

section \<open>Cancelling\<close>

lemma delete_rsvp_absent:
  assumes "findById c eventId = Some ev" and "userId \<notin> set (attendees ev)"
  shows "delete_rsvp c (Some eventId) userId = ((400, Message ''You have not RSVP'd to this event''), c)"
  using assms by (simp add: delete_rsvp_def list_ex_eq_member)

lemma delete_rsvp_present:
  assumes "findById c eventId = Some ev" and "userId \<in> set (attendees ev)"
  shows "fst (delete_rsvp c (Some eventId) userId) =
           (200, MessageEvent ''Successfully cancelled RSVP''
                   (Some (ev\<lparr>attendees := filter (\<lambda>a. a \<noteq> userId) (attendees ev)\<rparr>)))"
    and "findById (snd (delete_rsvp c (Some eventId) userId)) j =
           (if j = eventId
            then Some (ev\<lparr>attendees := filter (\<lambda>a. a \<noteq> userId) (attendees ev)\<rparr>)
            else findById c j)"
    and "snd (delete_rsvp c (Some eventId) userId) =
           snd (updateOne (\<lambda>d. ev_id d = eventId)
                  (\<lambda>_. ev\<lparr>attendees := filter (\<lambda>a. a \<noteq> userId) (attendees ev)\<rparr>) c)"
proof -
  let ?ev' = "ev\<lparr>attendees := filter (\<lambda>a. a \<noteq> userId) (attendees ev)\<rparr>"
  have "ev_id ?ev' = eventId"
    using findById_Some_id [OF assms(1)] by simp
  from save_found [OF assms(1) this]
  obtain c' where c': "save c ?ev' = Some c'"
    "c' = snd (updateOne (\<lambda>d. ev_id d = eventId) (\<lambda>_. ?ev') c)"
    "\<And>j. findById c' j = (if j = eventId then Some ?ev' else findById c j)"
    by blast
  have r: "delete_rsvp c (Some eventId) userId =
      ((200, MessageEvent ''Successfully cancelled RSVP'' (findById c' eventId)), c')"
    using assms c'(1) by (simp add: delete_rsvp_def list_ex_eq_member)
  show "fst (delete_rsvp c (Some eventId) userId) =
           (200, MessageEvent ''Successfully cancelled RSVP'' (Some ?ev'))"
    using r c'(3) [of eventId] by simp
  show "findById (snd (delete_rsvp c (Some eventId) userId)) j =
           (if j = eventId then Some ?ev' else findById c j)"
    using r c'(3) [of j] by simp
  show "snd (delete_rsvp c (Some eventId) userId) =
           snd (updateOne (\<lambda>d. ev_id d = eventId) (\<lambda>_. ?ev') c)"
    using r c'(2) by simp
qed

lemma delete_rsvp_status:
  assumes "findById c eventId = Some ev"
  shows "fst (fst (delete_rsvp c (Some eventId) userId)) = (if userId \<in> set (attendees ev) then 200 else 400)"
  using delete_rsvp_absent [OF assms] delete_rsvp_present(1) [OF assms] by simp

lemma findById_map:
  "(\<And>d. ev_id (f d) = ev_id d) \<Longrightarrow> findById (map f c) i = map_option f (findById c i)"
  by (induction c) (simp_all add: findById_Cons findById_def)

text \<open>
  Claim C7. On an event that exists, cancelling succeeds (200) exactly when the user is
  among the attendees, and the user is then removed; when the user is absent the answer
  is the not-reserved rejection (400) and the collection is as before. The handler never
  reads the clock, and its answer does not depend on any instant stored with the events:
  with the dates, opening instants and creation instants of all events replaced by
  arbitrary others, the status is the same.
\<close>

theorem delete_rsvp_cancel:
  assumes "findById c eventId = Some ev"
  shows "(fst (fst (delete_rsvp c (Some eventId) userId)) = 200 \<longleftrightarrow> userId \<in> set (attendees ev))
       \<and> (userId \<in> set (attendees ev) \<longrightarrow>
            findById (snd (delete_rsvp c (Some eventId) userId)) eventId =
              Some (ev\<lparr>attendees := filter (\<lambda>a. a \<noteq> userId) (attendees ev)\<rparr>)
            \<and> userId \<notin> set (filter (\<lambda>a. a \<noteq> userId) (attendees ev)))
       \<and> (userId \<notin> set (attendees ev) \<longrightarrow>
            delete_rsvp c (Some eventId) userId = ((400, Message ''You have not RSVP'd to this event''), c))
       \<and> fst (fst (delete_rsvp
                     (map (\<lambda>d. d\<lparr>date := held d, rsvpOpenAt := opens d, createdAt := made d\<rparr>) c)
                     (Some eventId) userId)) =
           fst (fst (delete_rsvp c (Some eventId) userId))"
proof (intro conjI impI)
  show "fst (fst (delete_rsvp c (Some eventId) userId)) = 200 \<longleftrightarrow> userId \<in> set (attendees ev)"
    by (simp add: delete_rsvp_status [OF assms])
next
  assume "userId \<in> set (attendees ev)"
  then show "findById (snd (delete_rsvp c (Some eventId) userId)) eventId =
              Some (ev\<lparr>attendees := filter (\<lambda>a. a \<noteq> userId) (attendees ev)\<rparr>)"
    using delete_rsvp_present(2) [OF assms, of userId eventId] by simp
next
  show "userId \<notin> set (filter (\<lambda>a. a \<noteq> userId) (attendees ev))"
    by simp
next
  assume "userId \<notin> set (attendees ev)"
  then show "delete_rsvp c (Some eventId) userId = ((400, Message ''You have not RSVP'd to this event''), c)"
    by (rule delete_rsvp_absent [OF assms])
next
  let ?f = "\<lambda>d. d\<lparr>date := held d, rsvpOpenAt := opens d, createdAt := made d\<rparr>"
  have "findById (map ?f c) eventId = Some (?f ev)"
    using assms by (simp add: findById_map)
  from delete_rsvp_status [OF this, of userId] delete_rsvp_status [OF assms, of userId]
  show "fst (fst (delete_rsvp (map ?f c) (Some eventId) userId)) = fst (fst (delete_rsvp c (Some eventId) userId))"
    by simp
qed

theorem delete_rsvp_cancel_witness:
  "findById [launch\<lparr>attendees := [11, 12]\<rparr>] 5 = Some (launch\<lparr>attendees := [11, 12]\<rparr>)
   \<and> fst (fst (delete_rsvp [launch\<lparr>attendees := [11, 12]\<rparr>] (Some 5) 11)) = 200
   \<and> findById (snd (delete_rsvp [launch\<lparr>attendees := [11, 12]\<rparr>] (Some 5) 11)) 5 =
       Some (launch\<lparr>attendees := [12]\<rparr>)
   \<and> delete_rsvp [launch\<lparr>attendees := [11, 12]\<rparr>] (Some 5) 13 =
       ((400, Message ''You have not RSVP'd to this event''), [launch\<lparr>attendees := [11, 12]\<rparr>])"
proof -
  have f: "findById [launch\<lparr>attendees := [11, 12]\<rparr>] 5 =
      Some (launch\<lparr>attendees := [11, 12]\<rparr>)"
    by (simp add: findById_def launch_def)
  show ?thesis
    using delete_rsvp_cancel [OF f, of 11] delete_rsvp_cancel [OF f, of 13] f
    by simp
qed

text \<open>
  Claim C10. A successful cancellation leaves, under the event's id, the event with every
  occurrence of the user removed from its attendees, the others in their order, and with
  every other field as it was; the event in the answer is that event, and no other event
  changes.
\<close>

theorem delete_rsvp_frame:
  assumes "delete_rsvp c (Some eventId) userId = ((200, b), c')" and "findById c eventId = Some ev"
  shows "\<exists>ev'. findById c' eventId = Some ev'
           \<and> b = MessageEvent ''Successfully cancelled RSVP'' (Some ev')
           \<and> attendees ev' = filter (\<lambda>a. a \<noteq> userId) (attendees ev)
           \<and> ev_id ev' = ev_id ev \<and> title ev' = title ev \<and> description ev' = description ev
           \<and> date ev' = date ev \<and> location ev' = location ev \<and> capacity ev' = capacity ev
           \<and> creator ev' = creator ev \<and> createdAt ev' = createdAt ev
           \<and> rsvpOpenAt ev' = rsvpOpenAt ev \<and> image_path ev' = image_path ev
           \<and> (\<forall>j. j \<noteq> eventId \<longrightarrow> findById c' j = findById c j)"
proof -
  have m: "userId \<in> set (attendees ev)"
    using delete_rsvp_status [OF assms(2), of userId] assms(1) by (simp split: if_splits)
  let ?ev' = "ev\<lparr>attendees := filter (\<lambda>a. a \<noteq> userId) (attendees ev)\<rparr>"
  have "findById c' j = (if j = eventId then Some ?ev' else findById c j)" for j
    using delete_rsvp_present(2) [OF assms(2) m, of j] assms(1) by simp
  moreover have "b = MessageEvent ''Successfully cancelled RSVP'' (Some ?ev')"
    using delete_rsvp_present(1) [OF assms(2) m] assms(1) by simp
  ultimately show ?thesis
    by (intro exI [of _ ?ev']) simp
qed

theorem delete_rsvp_frame_witness:
  "delete_rsvp [launch\<lparr>attendees := [11, 12, 13]\<rparr>] (Some 5) 12 =
     ((200, MessageEvent ''Successfully cancelled RSVP'' (Some (launch\<lparr>attendees := [11, 13]\<rparr>))),
      [launch\<lparr>attendees := [11, 13]\<rparr>])
   \<and> findById [launch\<lparr>attendees := [11, 12, 13]\<rparr>] 5 =
       Some (launch\<lparr>attendees := [11, 12, 13]\<rparr>)
   \<and> findById [launch\<lparr>attendees := [11, 13]\<rparr>] 5 = Some (launch\<lparr>attendees := [11, 13]\<rparr>)
   \<and> attendees (launch\<lparr>attendees := [11, 13]\<rparr>) =
       filter (\<lambda>a. a \<noteq> 12) (attendees (launch\<lparr>attendees := [11, 12, 13]\<rparr>))
   \<and> capacity (launch\<lparr>attendees := [11, 13]\<rparr>) = capacity launch"
proof -
  have r: "delete_rsvp [launch\<lparr>attendees := [11, 12, 13]\<rparr>] (Some 5) 12 =
     ((200, MessageEvent ''Successfully cancelled RSVP'' (Some (launch\<lparr>attendees := [11, 13]\<rparr>))),
      [launch\<lparr>attendees := [11, 13]\<rparr>])"
    by (simp add: delete_rsvp_def save_def findById_def launch_def)
  have f: "findById [launch\<lparr>attendees := [11, 12, 13]\<rparr>] 5 =
       Some (launch\<lparr>attendees := [11, 12, 13]\<rparr>)"
    by (simp add: findById_def launch_def)
  show ?thesis
    using delete_rsvp_frame [OF r f] r f by (simp add: findById_def launch_def)
qed

section \<open>Capacity under interleaved reservations\<close>

lemma post_rsvp_commit_events:
  "snd (post_rsvp_commit c eventId userId) =
     snd (updateOne (rsvp_filter eventId userId) (rsvp_update userId) c)"
proof (cases "fst (updateOne (rsvp_filter eventId userId) (rsvp_update userId) c) = 0")
  case True
  then show ?thesis
    using updateOne_zero_same [OF True] by (simp add: post_rsvp_commit_def split_beta)
next
  case False
  then show ?thesis
    by (simp add: post_rsvp_commit_def split_beta)
qed

lemma rsvp_do_events:
  "events (rsvp_do s (Read r path userId now1 now2 now3)) = events s"
  "events (rsvp_do s (Commit r)) =
     (case pending s r of
        None \<Rightarrow> events s
      | Some p \<Rightarrow> snd (post_rsvp_commit (events s) (fst p) (snd p)))"
  by (cases path) (simp_all add: split_beta split: option.splits)

lemma post_rsvp_commit_within_capacity:
  assumes "within_capacity e c"
  shows "within_capacity e (snd (post_rsvp_commit c eventId userId))"
proof -
  let ?P = "\<lambda>d. ev_id d = e \<longrightarrow> int (length (attendees d)) \<le> capacity d"
  have "\<forall>d\<in>set (snd (updateOne (rsvp_filter eventId userId) (rsvp_update userId) c)). ?P d"
  proof (rule updateOne_preserves)
    show "\<forall>d\<in>set c. ?P d"
      using assms by (simp add: within_capacity_def)
  next
    fix d
    assume "?P d" and "rsvp_filter eventId userId d"
    then show "?P (rsvp_update userId d)"
      by (simp add: rsvp_filter_def rsvp_update_def addToSet_def)
  qed
  then show ?thesis
    by (simp add: within_capacity_def post_rsvp_commit_events)
qed

lemma rsvp_do_within_capacity:
  "within_capacity e (events s) \<Longrightarrow> within_capacity e (events (rsvp_do s step))"
proof (cases step)
  case (Read r path userId now1 now2 now3)
  assume "within_capacity e (events s)"
  then show ?thesis
    by (simp only: Read rsvp_do_events)
next
  case (Commit r)
  assume "within_capacity e (events s)"
  then show ?thesis
    by (simp only: Commit rsvp_do_events) (simp add: post_rsvp_commit_within_capacity split: option.splits)
qed

lemma run_rsvp_within_capacity:
  "within_capacity e (events s) \<Longrightarrow> within_capacity e (events (run_rsvp s steps))"
  unfolding run_rsvp_def
  by (induction steps arbitrary: s) (simp_all add: rsvp_do_within_capacity)

lemma post_events_created:
  assumes "post_events parseDate c newId user b upload now created = ((201, body'), c')"
  shows "\<exists>ev. c' = c @ [ev] \<and> body' = EventDoc ev \<and> ev_id ev = newId \<and> attendees ev = []
           \<and> 1 \<le> capacity ev \<and> creator ev = user \<and> rsvpOpenAt ev = Some (now + 60 * 1000)
           \<and> newId \<notin> set (map ev_id c)"
proof -
  have v: "validation_errors b = []"
    using assms by (auto simp: post_events_def Let_def split: if_splits)
  then obtain n where n: "b_capacity b = Some n" "1 \<le> n"
    by (auto simp: validation_errors_def split: option.splits if_splits)
  obtain d where d: "parseDate (b_date b) = Some d"
    using assms v n by (cases "parseDate (b_date b)") (auto simp: post_events_def)
  let ?ev = "\<lparr>ev_id = newId, title = b_title b, description = b_description b,
              date = d, location = b_location b, capacity = n,
              image_path = (case upload of None \<Rightarrow> [] | Some filename \<Rightarrow> ''/uploads/'' @ filename),
              creator = user, attendees = [], createdAt = created,
              rsvpOpenAt = Some (now + 60 * 1000)\<rparr>"
  have "insertDoc c ?ev = Some c' \<and> body' = EventDoc ?ev"
    using assms v n d by (simp add: post_events_def Let_def split: option.splits)
  then have "c' = c @ [?ev]" "body' = EventDoc ?ev" "newId \<notin> set (map ev_id c)"
    by (auto simp: insertDoc_def split: if_splits)
  then show ?thesis
    using n(2) by (intro exI [of _ ?ev]) simp
qed

lemma post_events_within_capacity:
  assumes "post_events parseDate c newId user b upload now created = ((201, body'), c')"
  shows "within_capacity newId c'"
proof -
  obtain ev where ev: "c' = c @ [ev]" "attendees ev = []" "1 \<le> capacity ev"
    and fresh: "newId \<notin> set (map ev_id c)"
    using post_events_created [OF assms] by blast
  have "ev_id d \<noteq> newId" if "d \<in> set c" for d
    using fresh that by auto
  then show ?thesis
    using ev by (auto simp: within_capacity_def)
qed

text \<open>
  Claim C1. Take any event and any schedule of reservation requests, their reads and
  conditional writes interleaved in any way. If the event's attendees do not exceed its
  capacity at the start (as for a new event, which has none), they do not exceed it after
  any number of steps of the schedule.
\<close>

theorem rsvp_never_exceeds_capacity:
  assumes "within_capacity eventId (events s)"
  shows "within_capacity eventId (events (run_rsvp s (take k steps)))"
  using assms by (rule run_rsvp_within_capacity)

theorem rsvp_never_exceeds_capacity_witness:
  "within_capacity 5 (events (idle [launch\<lparr>capacity := 1\<rparr>]))
   \<and> within_capacity 5
        (events (run_rsvp (idle [launch\<lparr>capacity := 1\<rparr>])
           (take 4 [Read 1 (Some 5) 11 61000 61000 61000, Read 2 (Some 5) 12 61000 61000 61000,
                    Commit 2, Commit 1])))
   \<and> events (run_rsvp (idle [launch\<lparr>capacity := 1\<rparr>])
           (take 4 [Read 1 (Some 5) 11 61000 61000 61000, Read 2 (Some 5) 12 61000 61000 61000,
                    Commit 2, Commit 1])) =
       [launch\<lparr>capacity := 1, attendees := [12]\<rparr>]
   \<and> sent (run_rsvp (idle [launch\<lparr>capacity := 1\<rparr>])
           (take 4 [Read 1 (Some 5) 11 61000 61000 61000, Read 2 (Some 5) 12 61000 61000 61000,
                    Commit 2, Commit 1])) =
       [(200, MessageEvent ''Successfully RSVP'd to event''
                (Some (launch\<lparr>capacity := 1, attendees := [12]\<rparr>))),
        (400, Message ''Could not RSVP. Event may be at capacity or you may have already RSVP'd.'')]"
proof -
  have i: "within_capacity 5 (events (idle [launch\<lparr>capacity := 1\<rparr>]))"
    by (simp add: within_capacity_def idle_def launch_def)
  show ?thesis
    using rsvp_never_exceeds_capacity [OF i, of 4
        "[Read 1 (Some 5) 11 61000 61000 61000, Read 2 (Some 5) 12 61000 61000 61000,
          Commit 2, Commit 1]"] i
    by (simp add: run_rsvp_def idle_def post_rsvp_checks_def post_rsvp_commit_def rsvp_filter_def
        rsvp_update_def addToSet_def rsvpOpenAt_of_def findById_def launch_def)
qed

section \<open>No attendee twice\<close>

lemma save_events:
  "save c ev = Some c' \<Longrightarrow> c' = snd (updateOne (\<lambda>d. ev_id d = ev_id ev) (\<lambda>_. ev) c)"
  by (auto simp: save_def split: prod.splits if_splits)

lemma save_no_duplicates:
  assumes "no_duplicates c" and "distinct (attendees ev)" and "save c ev = Some c'"
  shows "no_duplicates c'"
proof -
  have "\<forall>d\<in>set (snd (updateOne (\<lambda>d. ev_id d = ev_id ev) (\<lambda>_. ev) c)). distinct (attendees d)"
    using assms(1,2) by (intro updateOne_preserves) (simp_all add: no_duplicates_def)
  then show ?thesis
    using save_events [OF assms(3)] by (simp add: no_duplicates_def)
qed

lemma post_rsvp_commit_no_duplicates:
  assumes "no_duplicates c"
  shows "no_duplicates (snd (post_rsvp_commit c eventId userId))"
proof -
  have "\<forall>d\<in>set (snd (updateOne (rsvp_filter eventId userId) (rsvp_update userId) c)).
          distinct (attendees d)"
    using assms
    by (intro updateOne_preserves) (simp_all add: no_duplicates_def rsvp_update_def addToSet_def)
  then show ?thesis
    by (simp add: no_duplicates_def post_rsvp_commit_events)
qed

lemma rsvp_do_no_duplicates:
  "no_duplicates (events s) \<Longrightarrow> no_duplicates (events (rsvp_do s step))"
proof (cases step)
  case (Read r path userId now1 now2 now3)
  assume "no_duplicates (events s)"
  then show ?thesis
    by (simp only: Read rsvp_do_events)
next
  case (Commit r)
  assume "no_duplicates (events s)"
  then show ?thesis
    by (simp only: Commit rsvp_do_events) (simp add: post_rsvp_commit_no_duplicates split: option.splits)
qed

lemma delete_rsvp_no_duplicates:
  assumes "no_duplicates c"
  shows "no_duplicates (snd (delete_rsvp c path userId))"
proof (cases "case path of None \<Rightarrow> None | Some eventId \<Rightarrow> findById c eventId")
  case None
  then show ?thesis
    using assms by (auto simp: delete_rsvp_def split: option.splits)
next
  case (Some ev)
  then obtain eventId where p: "path = Some eventId" and Some: "findById c eventId = Some ev"
    by (auto split: option.splits)
  have "distinct (attendees ev)"
    using assms findById_Some_mem [OF Some] by (simp add: no_duplicates_def)
  then have "distinct (attendees (ev\<lparr>attendees := filter (\<lambda>a. a \<noteq> userId) (attendees ev)\<rparr>))"
    by simp
  then have "no_duplicates c'"
    if "save c (ev\<lparr>attendees := filter (\<lambda>a. a \<noteq> userId) (attendees ev)\<rparr>) = Some c'" for c'
    using save_no_duplicates [OF assms _ that] by blast
  then show ?thesis
    using assms Some p
    by (auto simp: delete_rsvp_def split: option.splits)
qed

lemma post_events_no_duplicates:
  assumes "no_duplicates c"
  shows "no_duplicates (snd (post_events parseDate c newId user b file now created))"
  using assms
  by (auto simp: post_events_def insertDoc_def no_duplicates_def Let_def
      split: option.splits if_splits)

lemma put_events_no_duplicates:
  assumes "no_duplicates c"
  shows "no_duplicates (snd (put_events parseDate c path user b file))"
proof (cases "case path of None \<Rightarrow> None | Some eventId \<Rightarrow> findById c eventId")
  case None
  then show ?thesis
    using assms by (auto simp: put_events_def Let_def split: option.splits)
next
  case (Some ev)
  then obtain eventId where p: "path = Some eventId" and Some: "findById c eventId = Some ev"
    by (auto split: option.splits)
  have d: "distinct (attendees ev)"
    using assms findById_Some_mem [OF Some] by (simp add: no_duplicates_def)
  have "no_duplicates c'" if "save c ev' = Some c'" and "attendees ev' = attendees ev" for ev' c'
    using save_no_duplicates [OF assms _ that(1)] d that(2) by simp
  then show ?thesis
    using assms Some p
    by (auto simp: put_events_def Let_def split: option.splits)
qed

lemma findByIdAndDelete_subset: "set (findByIdAndDelete c i) \<subseteq> set c"
  by (induction c) auto

lemma delete_events_no_duplicates:
  assumes "no_duplicates c"
  shows "no_duplicates (snd (delete_events c path user))"
  using assms findByIdAndDelete_subset [of c]
  by (auto simp: delete_events_def no_duplicates_def split: option.splits)

lemma perform_no_duplicates:
  "no_duplicates (events s) \<Longrightarrow> no_duplicates (events (perform parseDate s op))"
  by (cases op)
     (simp_all add: answered_def rsvp_do_no_duplicates delete_rsvp_no_duplicates
        post_events_no_duplicates put_events_no_duplicates delete_events_no_duplicates
        del: rsvp_do.simps)

lemma perform_all_no_duplicates:
  "no_duplicates (events s) \<Longrightarrow> no_duplicates (events (perform_all parseDate s ops))"
  unfolding perform_all_def
  by (induction ops arbitrary: s) (simp_all add: perform_no_duplicates del: perform.simps)

text \<open>
  Claim C2. Take any sequence of operations: reservations (their reads and conditional
  writes interleaved in any way), cancellations, creations, updates and deletions. If no
  event lists an attendee twice at the start (as in an empty collection), then no event
  does after any number of these operations.
\<close>

theorem attendees_never_duplicated:
  assumes "no_duplicates (events s)"
  shows "no_duplicates (events (perform_all parseDate s (take k ops)))"
  using assms by (rule perform_all_no_duplicates)

lemma launch_form_valid: "validation_errors launch_form = []"
  by (simp add: validation_errors_def launch_form_def)

lemma create_launch:
  "post_events parse_sample [] 5 10 launch_form None 0 0 = ((201, EventDoc launch), [launch])"
  by (simp add: post_events_def launch_form_valid)
     (simp add: launch_form_def launch_def parse_sample_def insertDoc_def Let_def)

theorem attendees_never_duplicated_witness:
  "no_duplicates (events (idle []))
   \<and> no_duplicates (events (perform_all parse_sample (idle [])
        (take 5 [Create 5 10 launch_form None 0 0,
                 Join (Read 1 (Some 5) 11 61000 61000 61000),
                 Join (Read 2 (Some 5) 11 61000 61000 61000),
                 Join (Commit 1), Join (Commit 2)])))
   \<and> events (perform_all parse_sample (idle [])
        (take 5 [Create 5 10 launch_form None 0 0,
                 Join (Read 1 (Some 5) 11 61000 61000 61000),
                 Join (Read 2 (Some 5) 11 61000 61000 61000),
                 Join (Commit 1), Join (Commit 2)])) = [launch\<lparr>attendees := [11]\<rparr>]"
proof -
  have i: "no_duplicates (events (idle []))"
    by (simp add: no_duplicates_def idle_def)
  have l: "findById [launch] 5 = Some launch" "rsvpOpenAt_of launch = 60000"
    "date launch = 100000" "attendees launch = []" "capacity launch = 2" "ev_id launch = 5"
    by (simp_all add: findById_def launch_def rsvpOpenAt_of_def)
  have e: "events (perform_all parse_sample (idle [])
        (take 5 [Create 5 10 launch_form None 0 0,
                 Join (Read 1 (Some 5) 11 61000 61000 61000),
                 Join (Read 2 (Some 5) 11 61000 61000 61000),
                 Join (Commit 1), Join (Commit 2)])) = [launch\<lparr>attendees := [11]\<rparr>]"
    by (simp add: perform_all_def idle_def answered_def create_launch post_rsvp_checks_def l
        post_rsvp_commit_def rsvp_filter_def rsvp_update_def addToSet_def)
  show ?thesis
    using attendees_never_duplicated [OF i, of parse_sample 5
        "[Create 5 10 launch_form None 0 0,
          Join (Read 1 (Some 5) 11 61000 61000 61000),
          Join (Read 2 (Some 5) 11 61000 61000 61000),
          Join (Commit 1), Join (Commit 2)]"] i e
    by simp
qed

section \<open>Lowering the capacity\<close>

lemma put_events_invalid:
  "validation_errors b \<noteq> [] \<Longrightarrow>
   put_events parseDate c path user b file = ((400, Errors (validation_errors b)), c)"
  by (simp add: put_events_def)

lemma put_events_below_attendance:
  assumes "validation_errors b = []" and "findById c eventId = Some ev" and "creator ev = user"
    and "b_capacity b = Some n" and "n < int (length (attendees ev))"
  shows "put_events parseDate c (Some eventId) user b file =
           ((400, Message (''Capacity cannot be less than current attendees ('' @
                           show_nat (length (attendees ev)) @ '')'')), c)"
  using assms by (simp add: put_events_def capacity_message_def)

text \<open>
  Claim C9, as the code has it. When the creator of an event asks for a capacity below the
  number of its attendees, the request is rejected with status 400 and the collection is
  left as it was. If the body passes the field validation, the message is
  \<^verbatim>\<open>Capacity cannot be less than current attendees (N)\<close> where \<open>N\<close> is the decimal
  numeral of that number of attendees; if it does not (a title that is blank once trimmed,
  a capacity below 1, ...), the answer is the list of validation messages, since the
  validation comes first.
\<close>

theorem put_events_capacity_below_attendance:
  assumes "findById c eventId = Some ev" and "creator ev = user"
    and "b_capacity b = Some n" and "n < int (length (attendees ev))"
  shows "snd (put_events parseDate c (Some eventId) user b file) = c
       \<and> fst (fst (put_events parseDate c (Some eventId) user b file)) = 400
       \<and> (validation_errors b = [] \<longrightarrow>
            (\<exists>digits. snd (fst (put_events parseDate c (Some eventId) user b file)) =
                         Message (''Capacity cannot be less than current attendees ('' @ digits @ '')'')
                     \<and> decimal_of digits (length (attendees ev))))
       \<and> (validation_errors b \<noteq> [] \<longrightarrow>
            snd (fst (put_events parseDate c (Some eventId) user b file)) = Errors (validation_errors b))"
proof (cases "validation_errors b = []")
  case True
  have "snd (fst (put_events parseDate c (Some eventId) user b file)) =
          Message (''Capacity cannot be less than current attendees ('' @
                   show_nat (length (attendees ev)) @ '')'')
        \<and> decimal_of (show_nat (length (attendees ev))) (length (attendees ev))"
    using put_events_below_attendance [OF True assms] show_nat_decimal by simp
  then have "\<exists>digits. snd (fst (put_events parseDate c (Some eventId) user b file)) =
                         Message (''Capacity cannot be less than current attendees ('' @ digits @ '')'')
                     \<and> decimal_of digits (length (attendees ev))"
    by blast
  then show ?thesis
    using True put_events_below_attendance [OF True assms] by simp
next
  case False
  then show ?thesis
    by (simp add: put_events_invalid)
qed

theorem put_events_capacity_below_attendance_witness:
  "findById [launch\<lparr>attendees := [11, 12]\<rparr>] 5 = Some (launch\<lparr>attendees := [11, 12]\<rparr>)
   \<and> creator (launch\<lparr>attendees := [11, 12]\<rparr>) = 10
   \<and> b_capacity (launch_form\<lparr>b_capacity := Some 1\<rparr>) = Some 1
   \<and> 1 < int (length (attendees (launch\<lparr>attendees := [11, 12]\<rparr>)))
   \<and> validation_errors (launch_form\<lparr>b_capacity := Some 1\<rparr>) = []
   \<and> put_events parse_sample [launch\<lparr>attendees := [11, 12]\<rparr>] (Some 5) 10
        (launch_form\<lparr>b_capacity := Some 1\<rparr>) None =
       ((400, Message ''Capacity cannot be less than current attendees (2)''),
        [launch\<lparr>attendees := [11, 12]\<rparr>])
   \<and> decimal_of ''2'' 2"
proof -
  have f: "findById [launch\<lparr>attendees := [11, 12]\<rparr>] 5 =
      Some (launch\<lparr>attendees := [11, 12]\<rparr>)"
    by (simp add: findById_def launch_def)
  have cr: "creator (launch\<lparr>attendees := [11, 12]\<rparr>) = 10"
    by (simp add: launch_def)
  have cap: "b_capacity (launch_form\<lparr>b_capacity := Some 1\<rparr>) = Some 1"
    by simp
  have below: "1 < int (length (attendees (launch\<lparr>attendees := [11, 12]\<rparr>)))"
    by simp
  have v: "validation_errors (launch_form\<lparr>b_capacity := Some 1\<rparr>) = []"
    by (simp add: validation_errors_def launch_form_def)
  have r: "put_events parse_sample [launch\<lparr>attendees := [11, 12]\<rparr>] (Some 5) 10
        (launch_form\<lparr>b_capacity := Some 1\<rparr>) None =
       ((400, Message ''Capacity cannot be less than current attendees (2)''),
        [launch\<lparr>attendees := [11, 12]\<rparr>])"
    by (simp add: put_events_def v f cr capacity_message_def show_nat_2)
  have "\<exists>digits. Message ''Capacity cannot be less than current attendees (2)'' =
                   Message (''Capacity cannot be less than current attendees ('' @ digits @ '')'')
                 \<and> decimal_of digits 2"
    using put_events_capacity_below_attendance [OF f cr cap below, of parse_sample None] v
    by (simp add: r numeral_2_eq_2)
  then have "decimal_of ''2'' 2"
    by auto
  then show ?thesis
    using f cr v r by simp
qed

theorem put_events_capacity_below_attendance_counterexample:
  "b_capacity (launch_form\<lparr>b_capacity := Some 0\<rparr>) = Some 0
   \<and> 0 < int (length (attendees (launch\<lparr>attendees := [11, 12]\<rparr>)))
   \<and> creator (launch\<lparr>attendees := [11, 12]\<rparr>) = 10
   \<and> put_events parse_sample [launch\<lparr>attendees := [11, 12]\<rparr>] (Some 5) 10
        (launch_form\<lparr>b_capacity := Some 0\<rparr>) None =
       ((400, Errors [''Capacity must be at least 1'']), [launch\<lparr>attendees := [11, 12]\<rparr>])
   \<and> put_events parse_sample [launch\<lparr>attendees := [11, 12]\<rparr>] (Some 5) 10
        (launch_form\<lparr>b_capacity := Some 1, b_title := []\<rparr>) None =
       ((400, Errors [''Title is required'']), [launch\<lparr>attendees := [11, 12]\<rparr>])"
  by (simp add: put_events_def validation_errors_def launch_form_def launch_def)

section \<open>The public listing\<close>

lemma find_sorted_props:
  assumes "find_sorted regex_i q c = Some es"
  shows "sorted (map date es)" and "set es \<subseteq> set c" and "\<forall>e\<in>set es. q_date_gte q \<le> date e"
    and "q_title_regex q = Some pat \<Longrightarrow> \<exists>matches. regex_i pat = Some matches \<and> (\<forall>e\<in>set es. matches (title e))"
  using assms by (auto simp: find_sorted_def split: option.splits)

text \<open>
  What the listing guarantees. The events come in ascending order of date and are events of
  the collection. Their dates are at least the parsed \<^verbatim>\<open>date\<close> parameter when one is
  given, and at least the clock otherwise. With a \<^verbatim>\<open>search\<close> parameter, every title
  matches it as a case-insensitive regular expression.
\<close>

lemma get_events_listing:
  assumes "get_events regex_i parseDate c now search date_param = (200, EventList es)"
  shows "sorted (map date es)"
    and "set es \<subseteq> set c"
    and "date_param = None \<or> date_param = Some [] \<Longrightarrow> \<forall>e\<in>set es. now \<le> date e"
    and "date_param = Some s \<Longrightarrow> s \<noteq> [] \<Longrightarrow> \<exists>m. parseDate s = Some m \<and> (\<forall>e\<in>set es. m \<le> date e)"
    and "search = Some p \<Longrightarrow> p \<noteq> [] \<Longrightarrow>
         \<exists>matches. regex_i p = Some matches \<and> (\<forall>e\<in>set es. matches (title e))"
proof -
  obtain q where q: "find_sorted regex_i q c = Some es"
    and qt: "q_title_regex q = (case search of None \<Rightarrow> None | Some p \<Rightarrow> if p = [] then None else Some p)"
    and qd: "q_date_gte q =
        (case date_param of
           None \<Rightarrow> now
         | Some s \<Rightarrow> if s = [] then now else (case parseDate s of None \<Rightarrow> now | Some m \<Rightarrow> m))"
    and pd: "\<And>s. date_param = Some s \<Longrightarrow> s \<noteq> [] \<Longrightarrow> parseDate s \<noteq> None"
    using assms
    by (auto simp: get_events_def Let_def listing_def split: option.splits if_splits)
  show "sorted (map date es)" and "set es \<subseteq> set c"
    using find_sorted_props(1,2) [OF q] by simp_all
  show "\<forall>e\<in>set es. now \<le> date e" if "date_param = None \<or> date_param = Some []"
    using find_sorted_props(3) [OF q] qd that by auto
  show "\<exists>m. parseDate s = Some m \<and> (\<forall>e\<in>set es. m \<le> date e)" if "date_param = Some s" "s \<noteq> []"
    using find_sorted_props(3) [OF q] qd pd [OF that] that by auto
  show "\<exists>matches. regex_i p = Some matches \<and> (\<forall>e\<in>set es. matches (title e))"
    if "search = Some p" "p \<noteq> []"
    using find_sorted_props(4) [OF q, of p] qt that by simp
qed

text \<open>
  Claim C8 fails on the code. A \<^verbatim>\<open>date\<close> parameter replaces the lower bound of the query
  instead of adding to it, so a request with an early date returns events that are already
  past. Here the clock reads 5000 and the listing returns an event dated 1000.
\<close>

theorem get_events_date_param_returns_past:
  "get_events (\<lambda>pat. Some (\<lambda>subject. True)) parse_sample [launch\<lparr>date := 1000\<rparr>] 5000 None
     (Some ''1970-01-01'') =
     (200, EventList [launch\<lparr>date := 1000\<rparr>])
   \<and> date (launch\<lparr>date := 1000\<rparr>) < 5000
   \<and> get_events (\<lambda>pat. Some (\<lambda>subject. True)) parse_sample [launch\<lparr>date := 1000\<rparr>] 5000 None None =
     (200, EventList [])"
  by (simp add: get_events_def find_sorted_def listing_def parse_sample_def launch_def)

section \<open>Ids stay unique\<close>

lemma findByIdAndDelete_ids:
  "distinct (map ev_id c) \<Longrightarrow> distinct (map ev_id (findByIdAndDelete c i))"
proof (induction c)
  case Nil
  then show ?case by simp
next
  case (Cons d ds)
  then show ?case
    using findByIdAndDelete_subset [of ds i] by auto
qed

lemma perform_unique_ids:
  assumes "distinct (map ev_id (events s))"
  shows "distinct (map ev_id (events (perform parseDate s op)))"
proof (cases op)
  case (Join step)
  show ?thesis
  proof (cases step)
    case (Read r path userId now1 now2 now3)
    then show ?thesis
      using assms Join by (simp only: perform.simps rsvp_do_events)
  next
    case (Commit r)
    have "map ev_id (snd (post_rsvp_commit (events s) e u)) = map ev_id (events s)" for e u
      unfolding post_rsvp_commit_events
      by (rule updateOne_ids) (simp add: rsvp_update_def)
    then show ?thesis
      using assms Join Commit
      by (simp only: perform.simps rsvp_do_events) (simp split: option.splits)
  qed
next
  case (Cancel path userId)
  have "map ev_id c' = map ev_id (events s)" if "save (events s) ev = Some c'" for ev c'
    unfolding save_events [OF that] by (rule updateOne_ids) simp
  then show ?thesis
    using assms Cancel
    by (auto simp: answered_def delete_rsvp_def split: option.splits)
next
  case (Create newId user b upload now created)
  then show ?thesis
    using assms
    by (auto simp: answered_def post_events_def insertDoc_def Let_def split: option.splits if_splits)
next
  case (Update path user b upload)
  have "map ev_id c' = map ev_id (events s)" if "save (events s) ev = Some c'" for ev c'
    unfolding save_events [OF that] by (rule updateOne_ids) simp
  then show ?thesis
    using assms Update
    by (auto simp: answered_def put_events_def Let_def split: option.splits)
next
  case (Delete path user)
  then show ?thesis
    using assms findByIdAndDelete_ids [OF assms]
    by (auto simp: answered_def delete_events_def split: option.splits)
qed

lemma perform_all_unique_ids:
  "distinct (map ev_id (events s)) \<Longrightarrow> distinct (map ev_id (events (perform_all parseDate s ops)))"
  unfolding perform_all_def
  by (induction ops arbitrary: s) (simp_all add: perform_unique_ids del: perform.simps)

section \<open>A run of the sample event\<close>

text \<open>
  The event is created at instant 0 with two seats. A request 30 seconds later is told to
  wait 30 seconds; at 61 seconds two users get the two seats and a third is told the event
  is full.
\<close>

lemma two_seats_scenario:
  "post_rsvp [launch] (Some 5) 11 30000 30000 30000 =
     ((400, Message ''RSVP will open in 30 seconds. Please wait at least 1 minute after event creation.''),
      [launch])"
  "post_rsvp [launch] (Some 5) 11 61000 61000 61000 =
     ((200, MessageEvent ''Successfully RSVP'd to event'' (Some (launch\<lparr>attendees := [11]\<rparr>))),
      [launch\<lparr>attendees := [11]\<rparr>])"
  "post_rsvp [launch\<lparr>attendees := [11]\<rparr>] (Some 5) 12 61000 61000 61000 =
     ((200, MessageEvent ''Successfully RSVP'd to event'' (Some (launch\<lparr>attendees := [11, 12]\<rparr>))),
      [launch\<lparr>attendees := [11, 12]\<rparr>])"
  "post_rsvp [launch\<lparr>attendees := [11, 12]\<rparr>] (Some 5) 13 61000 61000 61000 =
     ((400, Message ''Event is at full capacity''), [launch\<lparr>attendees := [11, 12]\<rparr>])"
  by (simp_all add: post_rsvp_def post_rsvp_checks_def post_rsvp_commit_def rsvp_filter_def
      rsvp_update_def addToSet_def rsvpOpenAt_of_def findById_def launch_def ceil_seconds_def
      wait_message_def show_int_values)


end
